theory Spec2Isabelle
  imports Main "HOL-Library.Multiset"
begin

section \<open>Data model of app.js\<close>

text \<open>
  The session is the global object \<^verbatim>\<open>state\<close> of app.js. Players live in the array
  \<^verbatim>\<open>state.players\<close> only, so they are modelled by value. Match objects are shared by
  reference between \<^verbatim>\<open>state.matches\<close>, \<^verbatim>\<open>state.matchQueue\<close> and
  \<^verbatim>\<open>state.currentMatches\<close>, and they are mutated in place, so the three arrays hold
  references into an explicit store of match objects.

  Identifiers (\<^verbatim>\<open>generateId()\<close>), time stamps (\<^verbatim>\<open>new Date().toISOString()\<close>) and
  \<^verbatim>\<open>Math.random()\<close> are inputs of the operations that use them; an operation reads the
  clock once. Saving to \<^verbatim>\<open>localStorage\<close>, rendering and the rental timer
  (\<^verbatim>\<open>state.rentalTimer\<close>) are left out: no operation modelled here reads them. Only
  \<^verbatim>\<open>doImport\<close> depends on them, through the exceptions they can raise inside its
  \<^verbatim>\<open>try\<close> block; there they are an input.

  A property that an object may lack is an option (\<^verbatim>\<open>wins\<close>, \<^verbatim>\<open>losses\<close>, \<^verbatim>\<open>startedAt\<close>,
  \<^verbatim>\<open>completedAt\<close>, \<^verbatim>\<open>scores\<close>, \<^verbatim>\<open>winner\<close>, the round tags), and so is \<^verbatim>\<open>court\<close>, which
  is \<^verbatim>\<open>null\<close> until the match is started. \<^verbatim>\<open>isResting\<close> is only ever tested for truth, so a
  missing \<^verbatim>\<open>isResting\<close> is \<open>False\<close>. The source's \<^verbatim>\<open>id\<close> is \<open>pid\<close> for a player, \<open>mid\<close> for a
  match and \<open>rid\<close> for a round; \<^verbatim>\<open>type\<close>, \<^verbatim>\<open>scores\<close>, \<^verbatim>\<open>winner\<close> and \<^verbatim>\<open>createdAt\<close> of a match
  are \<open>mtype\<close>, \<open>mscores\<close>, \<open>mwinner\<close> and \<open>mcreatedAt\<close>.
\<close>

type_synonym ident = string
type_synonym timestamp = string
type_synonym ref = nat

datatype level = Beginner | Intermediate | Advanced | Pro
datatype match_type = Singles | Doubles
datatype pairing_mode = Random | Balanced | Separate
datatype match_status = Pending | Playing | Completed
datatype winner = Team1 | Team2 | Draw

record player =
  pid :: ident
  name :: string
  level :: level
  matchCount :: nat
  isPlaying :: bool
  isResting :: bool
  wins :: "nat option"
  losses :: "nat option"
  createdAt :: timestamp

record scores =
  score1Set1 :: int
  score1Set2 :: int
  score1Set3 :: int
  score2Set1 :: int
  score2Set2 :: int
  score2Set3 :: int

record match =
  mid :: ident
  mtype :: match_type
  team1 :: "ident list"
  team2 :: "ident list"
  status :: match_status
  court :: "nat option"
  mcreatedAt :: timestamp
  startedAt :: "timestamp option"
  completedAt :: "timestamp option"
  mscores :: "scores option"
  mwinner :: "winner option"
  roundId :: "ident option"
  roundNumber :: "nat option"

record round =
  rid :: ident
  rnumber :: nat
  rmatches :: "ident list"
  rcreatedAt :: timestamp

record settings =
  matchType :: match_type
  pairingMode :: pairing_mode
  courtCount :: nat
  multiCourt :: bool

record state =
  players :: "player list"
  store :: "ref \<Rightarrow> match"
  nextRef :: ref
  matches :: "ref list"
  currentMatches :: "ref list"
  matchQueue :: "ref list"
  rounds :: "round list"
  settings :: settings
  currentRound :: nat

text \<open>\<^verbatim>\<open>LEVEL_WEIGHTS\<close>.\<close>

fun LEVEL_WEIGHTS :: "level \<Rightarrow> int" where
  "LEVEL_WEIGHTS Beginner = 1"
| "LEVEL_WEIGHTS Intermediate = 2"
| "LEVEL_WEIGHTS Advanced = 3"
| "LEVEL_WEIGHTS Pro = 4"

text \<open>\<^verbatim>\<open>state.players.find(p => p.id === id)\<close>: the first player with that id.\<close>

definition findPlayer :: "player list \<Rightarrow> ident \<Rightarrow> player option" where
  "findPlayer ps i = find (\<lambda>p. pid p = i) ps"

text \<open>
  The object that \<^verbatim>\<open>find\<close> returns is mutated in place: the first player with the
  id is replaced by its image, every other entry is left alone.
\<close>

fun updatePlayer :: "(player \<Rightarrow> player) \<Rightarrow> ident \<Rightarrow> player list \<Rightarrow> player list" where
  "updatePlayer f i [] = []"
| "updatePlayer f i (p # ps) = (if pid p = i then f p # ps else p # updatePlayer f i ps)"

section \<open>Pairing engine\<close>

text \<open>
  \<^verbatim>\<open>shuffleArray\<close>: the loop runs \<open>i\<close> from \<open>length - 1\<close> down to \<open>1\<close> and swaps
  position \<open>i\<close> with \<open>j = floor (Math.random() * (i + 1))\<close>, an index in \<open>0..i\<close>.
  The random source is a function from the number of the draw to a natural number; the
  draw with bound \<open>b\<close> is its value modulo \<open>b\<close>. The counter of draws is threaded.
\<close>

fun shuffleLoop :: "(nat \<Rightarrow> nat) \<Rightarrow> nat \<Rightarrow> nat \<Rightarrow> 'a list \<Rightarrow> 'a list \<times> nat" where
  "shuffleLoop rnd k 0 shuffled = (shuffled, k)"
| "shuffleLoop rnd k (Suc i) shuffled =
     (let j = rnd k mod (Suc i + 1)
      in shuffleLoop rnd (Suc k) i (shuffled[Suc i := shuffled ! j, j := shuffled ! Suc i]))"

definition shuffleArray :: "(nat \<Rightarrow> nat) \<Rightarrow> nat \<Rightarrow> 'a list \<Rightarrow> 'a list \<times> nat" where
  "shuffleArray rnd k array = shuffleLoop rnd k (length array - 1) array"

text \<open>
  \<^verbatim>\<open>balancePlayers\<close>, the doubles loop: \<^verbatim>\<open>shift\<close> takes the head, \<^verbatim>\<open>pop\<close> the last
  element; both are only called on a list of at least four elements. The array \<^verbatim>\<open>sorted\<close>
  is \<open>srt\<close> here.
\<close>

function balanceLoop :: "player list \<Rightarrow> player list \<Rightarrow> player list" where
  "balanceLoop srt result =
     (if 4 \<le> length srt then
        let strongest = hd srt; srt1 = tl srt;
            weakest = last srt1; srt2 = butlast srt1;
            secondStrongest = hd srt2; srt3 = tl srt2;
            secondWeakest = last srt3; srt4 = butlast srt3
        in balanceLoop srt4 (result @ [strongest, secondWeakest, secondStrongest, weakest])
      else result @ srt)"
  by pat_completeness auto
termination
  by (relation "measure (\<lambda>(srt, result). length srt)") auto

declare balanceLoop.simps [simp del]

text \<open>
  \<^verbatim>\<open>Array.prototype.sort\<close> is stable, and so is \<^const>\<open>sort_key\<close>. The comparator
  \<^verbatim>\<open>(a, b) => W[a.level] - W[b.level]\<close> sorts ascending by weight, the comparator
  \<^verbatim>\<open>(a, b) => W[b.level] - W[a.level]\<close> descending, which is ascending by the negated
  weight.
\<close>

definition balancePlayers :: "match_type \<Rightarrow> player list \<Rightarrow> player list" where
  "balancePlayers mt ps =
     (if mt = Singles then sort_key (\<lambda>p. LEVEL_WEIGHTS (level p)) ps
      else balanceLoop (sort_key (\<lambda>p. - LEVEL_WEIGHTS (level p)) ps) [])"

text \<open>
  \<^verbatim>\<open>separateByLevel\<close>: the four groups keep the order of the input; each is shuffled, in
  the order pro, advanced, intermediate, beginner.
\<close>

definition separateByLevel :: "(nat \<Rightarrow> nat) \<Rightarrow> nat \<Rightarrow> player list \<Rightarrow> player list \<times> nat" where
  "separateByLevel rnd k ps =
     (let (g1, k1) = shuffleArray rnd k (filter (\<lambda>p. level p = Pro) ps);
          (g2, k2) = shuffleArray rnd k1 (filter (\<lambda>p. level p = Advanced) ps);
          (g3, k3) = shuffleArray rnd k2 (filter (\<lambda>p. level p = Intermediate) ps);
          (g4, k4) = shuffleArray rnd k3 (filter (\<lambda>p. level p = Beginner) ps)
      in (g1 @ g2 @ g3 @ g4, k4))"

definition playersPerMatch :: "match_type \<Rightarrow> nat" where
  "playersPerMatch mt = (if mt = Doubles then 4 else 2)"

definition playersPerTeam :: "match_type \<Rightarrow> nat" where
  "playersPerTeam mt = (if mt = Doubles then 2 else 1)"

text \<open>
  The object literal of \<^verbatim>\<open>generateMatches\<close>: a pending match whose teams are the two
  halves of the selected players. The properties that the literal leaves out are \<open>None\<close>.
\<close>

definition newMatch :: "settings \<Rightarrow> ident \<Rightarrow> timestamp \<Rightarrow> player list \<Rightarrow> match" where
  "newMatch st newId now selectedPlayers =
     \<lparr> mid = newId,
       mtype = matchType st,
       team1 = map pid (take (playersPerTeam (matchType st)) selectedPlayers),
       team2 = map pid (drop (playersPerTeam (matchType st)) selectedPlayers),
       status = Pending,
       court = None,
       mcreatedAt = now,
       startedAt = None,
       completedAt = None,
       mscores = None,
       mwinner = None,
       roundId = None,
       roundNumber = None \<rparr>"

text \<open>
  The \<^verbatim>\<open>while (matchesCreated < courtsToFill)\<close> loop of \<^verbatim>\<open>generateMatches\<close>.
  \<open>gen n\<close> is the identifier that \<^verbatim>\<open>generateId()\<close> returns for the match created when
  \<open>matchesCreated = n\<close>.
\<close>

function createLoop ::
  "settings \<Rightarrow> (nat \<Rightarrow> ident) \<Rightarrow> timestamp \<Rightarrow> player list \<Rightarrow> nat \<Rightarrow> ident set \<Rightarrow> match list
     \<Rightarrow> match list" where
  "createLoop st gen now shuffledPlayers matchesCreated usedPlayers ms =
     (if matchesCreated < courtCount st then
        let available = filter (\<lambda>p. pid p \<notin> usedPlayers) shuffledPlayers
        in if length available < playersPerMatch (matchType st) then ms
           else
             let selectedPlayers = take (playersPerMatch (matchType st)) available;
                 m = newMatch st (gen matchesCreated) now selectedPlayers
             in createLoop st gen now shuffledPlayers (Suc matchesCreated)
                  (usedPlayers \<union> set (map pid selectedPlayers)) (ms @ [m])
      else ms)"
  by pat_completeness auto
termination
  by (relation "measure (\<lambda>(st, gen, now, shuffledPlayers, matchesCreated, usedPlayers, ms).
        courtCount st - matchesCreated)") auto

declare createLoop.simps [simp del]

text \<open>The mode-specific ordering (the \<^verbatim>\<open>switch\<close> on \<^verbatim>\<open>pairingMode\<close>).\<close>

definition orderByMode :: "settings \<Rightarrow> (nat \<Rightarrow> nat) \<Rightarrow> player list \<Rightarrow> player list" where
  "orderByMode st rnd ps =
     (case pairingMode st of
        Random \<Rightarrow> fst (shuffleArray rnd 0 ps)
      | Balanced \<Rightarrow> balancePlayers (matchType st) ps
      | Separate \<Rightarrow> fst (separateByLevel rnd 0 ps))"

text \<open>\<^verbatim>\<open>generateMatches\<close> as first declared (kept as \<^verbatim>\<open>originalGenerateMatches\<close>).\<close>

definition originalGenerateMatches ::
  "settings \<Rightarrow> (nat \<Rightarrow> ident) \<Rightarrow> timestamp \<Rightarrow> (nat \<Rightarrow> nat) \<Rightarrow> player list \<Rightarrow> match list" where
  "originalGenerateMatches st gen now rnd availablePlayers =
     (let shuffledPlayers = sort_key matchCount (orderByMode st rnd availablePlayers)
      in createLoop st gen now shuffledPlayers 0 {} [])"

text \<open>The override: resting players are filtered out first.\<close>

definition generateMatches ::
  "settings \<Rightarrow> (nat \<Rightarrow> ident) \<Rightarrow> timestamp \<Rightarrow> (nat \<Rightarrow> nat) \<Rightarrow> player list \<Rightarrow> match list" where
  "generateMatches st gen now rnd availablePlayers =
     originalGenerateMatches st gen now rnd (filter (\<lambda>p. \<not> isResting p) availablePlayers)"

text \<open>\<^verbatim>\<open>[...match.team1, ...match.team2]\<close>.\<close>

definition matchPlayers :: "match \<Rightarrow> ident list" where
  "matchPlayers m = team1 m @ team2 m"

section \<open>Outcome of an operation\<close>

text \<open>
  Each operation ends with at most one \<^verbatim>\<open>showToast(message, type)\<close>; a bare
  \<^verbatim>\<open>return\<close> shows none. The messages are named by what they say.
\<close>

datatype toast_type = Success | Error | Info

datatype message =
    NeedPlayers nat
  | RoundCreated nat nat
  | QueueEmpty
  | CourtsFull
  | CannotStart
  | Started nat
  | NoCurrentMatches
  | MatchFinished
  | MatchNotFound
  | ScoreSaved
  | EnterData
  | InvalidData
  | Imported
  | EnterName
  | NameTaken
  | PlayerAdded string
  | EnterNames
  | BulkAdded nat nat
  | PlayerEdited

type_synonym toast = "(message \<times> toast_type) option"

section \<open>Round generator\<close>

text \<open>
  The \<^verbatim>\<open>matches.forEach\<close> of \<^verbatim>\<open>generateRound\<close>: the match object gets its round tags
  and is pushed to \<^verbatim>\<open>state.matches\<close> and \<^verbatim>\<open>state.matchQueue\<close> (one object, two
  references); its id is pushed to \<^verbatim>\<open>round.matches\<close>.
\<close>

fun enqueueMatches :: "ident \<Rightarrow> match list \<Rightarrow> state \<Rightarrow> ident list \<Rightarrow> state \<times> ident list" where
  "enqueueMatches roundIdent [] s roundMatches = (s, roundMatches)"
| "enqueueMatches roundIdent (m # ms) s roundMatches =
     (let r = nextRef s;
          m' = m\<lparr> roundId := Some roundIdent, roundNumber := Some (currentRound s) \<rparr>;
          s' = s\<lparr> store := (store s)(r := m'),
                  nextRef := Suc r,
                  matches := matches s @ [r],
                  matchQueue := matchQueue s @ [r] \<rparr>
      in enqueueMatches roundIdent ms s' (roundMatches @ [mid m']))"

text \<open>
  \<^verbatim>\<open>generateRound\<close>. \<open>gen 0\<close> is the id of the round, \<open>gen (Suc n)\<close> the id of the
  \<open>n\<close>-th match. The call of \<^verbatim>\<open>generateMatches\<close> reaches the override.
\<close>

definition generateRound ::
  "(nat \<Rightarrow> ident) \<Rightarrow> timestamp \<Rightarrow> (nat \<Rightarrow> nat) \<Rightarrow> state \<Rightarrow> state \<times> toast" where
  "generateRound gen now rnd s =
     (let playersNeeded = (if matchType (settings s) = Doubles then 4 else 2);
          availablePlayers = filter (\<lambda>p. \<not> isPlaying p) (players s)
      in if length availablePlayers < playersNeeded
         then (s, Some (NeedPlayers playersNeeded, Error))
         else
           let s1 = s\<lparr> currentRound := currentRound s + 1 \<rparr>;
               ms = generateMatches (settings s1) (\<lambda>n. gen (Suc n)) now rnd availablePlayers;
               (s2, roundMatches) = enqueueMatches (gen 0) ms s1 [];
               round = \<lparr> rid = gen 0, rnumber = currentRound s1, rmatches = roundMatches,
                         rcreatedAt = now \<rparr>
           in (s2\<lparr> rounds := rounds s2 @ [round] \<rparr>,
               Some (RoundCreated (currentRound s2) (length ms), Success)))"

section \<open>Dispatch scheduler\<close>

text \<open>\<^verbatim>\<open>getAvailableCourts\<close>.\<close>

definition getAvailableCourts :: "state \<Rightarrow> nat list" where
  "getAvailableCourts s =
     (let usedCourts = set (map (\<lambda>r. court (store s r)) (currentMatches s))
      in filter (\<lambda>i. Some i \<notin> usedCourts) [1 ..< Suc (courtCount (settings s))])"

text \<open>\<^verbatim>\<open>Array.prototype.findIndex\<close>, with \<open>None\<close> for \<open>-1\<close>.\<close>

fun findIndex :: "('a \<Rightarrow> bool) \<Rightarrow> 'a list \<Rightarrow> nat option" where
  "findIndex P [] = None"
| "findIndex P (x # xs) = (if P x then Some 0 else map_option Suc (findIndex P xs))"

text \<open>\<^verbatim>\<open>array.splice(i, 1)\<close> on an index in range: what is left of the array.\<close>

definition spliceOut :: "nat \<Rightarrow> 'a list \<Rightarrow> 'a list" where
  "spliceOut i xs = take i xs @ drop (Suc i) xs"

text \<open>The predicate of the \<^verbatim>\<open>findIndex\<close> in \<^verbatim>\<open>startNextMatch\<close>.\<close>

definition canStart :: "state \<Rightarrow> ref \<Rightarrow> bool" where
  "canStart s r =
     list_all (\<lambda>playerId.
        case findPlayer (players s) playerId of
          None \<Rightarrow> False
        | Some player \<Rightarrow> \<not> isPlaying player \<or> multiCourt (settings s))
       (matchPlayers (store s r))"

text \<open>
  \<^verbatim>\<open>ids.forEach(playerId => { const player = state.players.find(...); if (player) {...} })\<close>:
  the body, \<open>f playerId\<close>, runs on the player found, in the order of the ids.
\<close>

fun forEachPlayer :: "(ident \<Rightarrow> player \<Rightarrow> player) \<Rightarrow> ident list \<Rightarrow> player list \<Rightarrow> player list" where
  "forEachPlayer f [] ps = ps"
| "forEachPlayer f (i # ids) ps = forEachPlayer f ids (updatePlayer (f i) i ps)"

text \<open>The body of the \<^verbatim>\<open>for (const courtNum of availableCourts)\<close> loop after the \<^verbatim>\<open>break\<close> test.\<close>

definition startOnCourt :: "timestamp \<Rightarrow> state \<Rightarrow> nat \<Rightarrow> nat \<Rightarrow> state" where
  "startOnCourt now s courtNum matchIndex =
     (let r = matchQueue s ! matchIndex;
          m = (store s r)\<lparr> status := Playing, court := Some courtNum, startedAt := Some now \<rparr>
      in s\<lparr> matchQueue := spliceOut matchIndex (matchQueue s),
             store := (store s)(r := m),
             currentMatches := currentMatches s @ [r],
             players := forEachPlayer
                          (\<lambda>playerId player. player\<lparr> isPlaying := True,
                                                     matchCount := matchCount player + 1 \<rparr>)
                          (matchPlayers m) (players s) \<rparr>)"

fun startLoop :: "timestamp \<Rightarrow> nat list \<Rightarrow> state \<Rightarrow> nat \<Rightarrow> state \<times> nat" where
  "startLoop now [] s matchesStarted = (s, matchesStarted)"
| "startLoop now (courtNum # courts) s matchesStarted =
     (case findIndex (canStart s) (matchQueue s) of
        None \<Rightarrow> (s, matchesStarted)
      | Some matchIndex \<Rightarrow>
          startLoop now courts (startOnCourt now s courtNum matchIndex) (matchesStarted + 1))"

definition startNextMatch :: "timestamp \<Rightarrow> state \<Rightarrow> state \<times> toast" where
  "startNextMatch now s =
     (if matchQueue s = [] then (s, Some (QueueEmpty, Info))
      else
        let availableCourts = getAvailableCourts s
        in if availableCourts = [] then (s, Some (CourtsFull, Error))
           else
             let (s', matchesStarted) = startLoop now availableCourts s 0
             in if matchesStarted = 0 then (s', Some (CannotStart, Error))
                else (s', Some (Started matchesStarted, Success)))"

section \<open>Match lifecycle\<close>

text \<open>
  What \<^verbatim>\<open>completeCurrentMatches\<close> and \<^verbatim>\<open>completeMatch\<close> do to one match object:
  status, completion time, and the busy flag of every member found in the roster.
\<close>

definition completeOne :: "timestamp \<Rightarrow> state \<Rightarrow> ref \<Rightarrow> state" where
  "completeOne now s r =
     (let m = (store s r)\<lparr> status := Completed, completedAt := Some now \<rparr>
      in s\<lparr> store := (store s)(r := m),
             players := forEachPlayer (\<lambda>playerId player. player\<lparr> isPlaying := False \<rparr>)
                          (matchPlayers m) (players s) \<rparr>)"

definition completeCurrentMatches :: "timestamp \<Rightarrow> state \<Rightarrow> state \<times> toast" where
  "completeCurrentMatches now s =
     (if currentMatches s = [] then (s, Some (NoCurrentMatches, Info))
      else ((foldl (completeOne now) s (currentMatches s))\<lparr> currentMatches := [] \<rparr>,
            Some (MatchFinished, Success)))"

definition completeMatch :: "timestamp \<Rightarrow> ident \<Rightarrow> state \<Rightarrow> state \<times> toast" where
  "completeMatch now matchId s =
     (case findIndex (\<lambda>r. mid (store s r) = matchId) (currentMatches s) of
        None \<Rightarrow> (s, None)
      | Some matchIndex \<Rightarrow>
          let r = currentMatches s ! matchIndex;
              s1 = s\<lparr> currentMatches := spliceOut matchIndex (currentMatches s) \<rparr>
          in (completeOne now s1 r, Some (MatchFinished, Success)))"

text \<open>
  \<^verbatim>\<open>saveScore\<close>. The six inputs are read with \<^verbatim>\<open>parseInt(...) || 0\<close>, so they arrive
  here as integers. One \<^verbatim>\<open>if / else if\<close> per set:
\<close>

definition countSet :: "int \<Rightarrow> int \<Rightarrow> nat \<times> nat \<Rightarrow> nat \<times> nat" where
  "countSet score1 score2 w =
     (if score1 > score2 then (fst w + 1, snd w)
      else if score2 > score1 then (fst w, snd w + 1)
      else w)"

definition deriveWinner :: "scores \<Rightarrow> winner" where
  "deriveWinner sc =
     (let w1 = countSet (score1Set1 sc) (score2Set1 sc) (0, 0);
          w2 = countSet (score1Set2 sc) (score2Set2 sc) w1;
          w3 = countSet (score1Set3 sc) (score2Set3 sc) w2;
          team1Wins = fst w3; team2Wins = snd w3
      in if team1Wins > team2Wins then Team1
         else if team2Wins > team1Wins then Team2 else Draw)"

text \<open>The body of the \<^verbatim>\<open>forEach\<close> that updates the player stats.\<close>

definition scorePlayer :: "match \<Rightarrow> winner \<Rightarrow> ident \<Rightarrow> player \<Rightarrow> player" where
  "scorePlayer m w playerId player =
     (let p1 = player\<lparr> isPlaying := False \<rparr>;
          p2 = (if wins p1 = None then p1\<lparr> wins := Some 0 \<rparr> else p1);
          p3 = (if losses p2 = None then p2\<lparr> losses := Some 0 \<rparr> else p2)
      in if w = Team1 \<and> playerId \<in> set (team1 m) then p3\<lparr> wins := map_option Suc (wins p3) \<rparr>
         else if w = Team2 \<and> playerId \<in> set (team2 m) then p3\<lparr> wins := map_option Suc (wins p3) \<rparr>
         else if w \<noteq> Draw then p3\<lparr> losses := map_option Suc (losses p3) \<rparr>
         else p3)"

definition saveScore :: "timestamp \<Rightarrow> ident \<Rightarrow> scores \<Rightarrow> state \<Rightarrow> state \<times> toast" where
  "saveScore now matchId sc s =
     (case findIndex (\<lambda>r. mid (store s r) = matchId) (currentMatches s) of
        None \<Rightarrow> (s, Some (MatchNotFound, Error))
      | Some matchIndex \<Rightarrow>
          let r = currentMatches s ! matchIndex;
              w = deriveWinner sc;
              m = (store s r)\<lparr> status := Completed, completedAt := Some now,
                                mscores := Some sc, mwinner := Some w \<rparr>;
              s1 = s\<lparr> currentMatches := spliceOut matchIndex (currentMatches s),
                      store := (store s)(r := m),
                      players := forEachPlayer (scorePlayer m w) (matchPlayers m) (players s) \<rparr>;
              s2 = (case findIndex (\<lambda>r'. mid (store s1 r') = matchId) (matches s1) of
                      None \<Rightarrow> s1
                    | Some mainMatchIndex \<Rightarrow> s1\<lparr> matches := (matches s1)[mainMatchIndex := r] \<rparr>)
          in (s2, Some (ScoreSaved, Success)))"

text \<open>A counter that may still be \<^verbatim>\<open>undefined\<close> reads as 0 (\<^verbatim>\<open>player.wins || 0\<close>).\<close>

definition counter :: "nat option \<Rightarrow> nat" where
  "counter c = (case c of None \<Rightarrow> 0 | Some n \<Rightarrow> n)"

section \<open>Player management\<close>

text \<open>
  \<^verbatim>\<open>String.prototype.trim\<close> and \<^verbatim>\<open>toLowerCase\<close> on strings of 8-bit characters: the
  white space of the ASCII range is removed at both ends, and the letters A to Z are
  mapped to a to z. The functions of the source also strip the white space beyond ASCII
  (U+00A0 and others) and map the upper-case letters beyond ASCII; on ASCII text, which
  is what the examples below use, they agree with these.
\<close>

definition isWhiteSpace :: "char \<Rightarrow> bool" where
  "isWhiteSpace c \<longleftrightarrow> c \<in> set [CHR '' '', CHR 0x09, CHR 0x0A, CHR 0x0B, CHR 0x0C, CHR 0x0D]"

definition trim :: "string \<Rightarrow> string" where
  "trim str = rev (dropWhile isWhiteSpace (rev (dropWhile isWhiteSpace str)))"

definition lowerChar :: "char \<Rightarrow> char" where
  "lowerChar c =
     (let n = (of_char c :: nat) in if 65 \<le> n \<and> n \<le> 90 then char_of (n + 32) else c)"

definition toLowerCase :: "string \<Rightarrow> string" where
  "toLowerCase str = map lowerChar str"

text \<open>\<^verbatim>\<open>state.players.some(p => p.name.toLowerCase() === name.toLowerCase())\<close>.\<close>

definition nameTaken :: "player list \<Rightarrow> string \<Rightarrow> bool" where
  "nameTaken ps nm = list_ex (\<lambda>p. toLowerCase (name p) = toLowerCase nm) ps"

text \<open>
  \<^verbatim>\<open>addPlayer\<close>: the two inputs are the values of the name field and of the level select.
  The new object has no \<^verbatim>\<open>isResting\<close>, \<^verbatim>\<open>wins\<close> or \<^verbatim>\<open>losses\<close> property.
\<close>

definition addPlayer :: "ident \<Rightarrow> timestamp \<Rightarrow> string \<Rightarrow> level \<Rightarrow> state \<Rightarrow> state \<times> toast" where
  "addPlayer newId now nameInput lvl s =
     (let nm = trim nameInput
      in if nm = [] then (s, Some (EnterName, Error))
         else if nameTaken (players s) nm then (s, Some (NameTaken, Error))
         else
           let player = \<lparr> pid = newId, name = nm, level = lvl, matchCount = 0,
                          isPlaying = False, isResting = False, wins = None, losses = None,
                          createdAt = now \<rparr>
           in (s\<lparr> players := players s @ [player] \<rparr>, Some (PlayerAdded nm, Success)))"

text \<open>
  \<^verbatim>\<open>addBulkPlayers\<close>: \<open>lines\<close> is the text of the field split at the line breaks, and
  \<open>gen n\<close> the id of the player created when \<open>addedCount = n\<close>. The \<^verbatim>\<open>names.forEach\<close>
  skips a name that is taken, also by a player added just before it.
\<close>

fun addNames ::
  "(nat \<Rightarrow> ident) \<Rightarrow> timestamp \<Rightarrow> level \<Rightarrow> string list \<Rightarrow> player list \<Rightarrow> nat \<Rightarrow> nat
     \<Rightarrow> player list \<times> nat \<times> nat" where
  "addNames gen now lvl [] ps addedCount skippedCount = (ps, addedCount, skippedCount)"
| "addNames gen now lvl (nm # names) ps addedCount skippedCount =
     (if nameTaken ps nm then addNames gen now lvl names ps addedCount (skippedCount + 1)
      else
        let player = \<lparr> pid = gen addedCount, name = nm, level = lvl,
                       matchCount = 0, isPlaying = False, isResting = False, wins = None,
                       losses = None, createdAt = now \<rparr>
        in addNames gen now lvl names (ps @ [player]) (addedCount + 1) skippedCount)"

definition addBulkPlayers ::
  "(nat \<Rightarrow> ident) \<Rightarrow> timestamp \<Rightarrow> string list \<Rightarrow> level \<Rightarrow> state \<Rightarrow> state \<times> toast" where
  "addBulkPlayers gen now lines lvl s =
     (let names = filter (\<lambda>nm. length nm > 0) (map trim lines)
      in if names = [] then (s, Some (EnterNames, Error))
         else
           let (ps, addedCount, skippedCount) = addNames gen now lvl names (players s) 0 0
           in (s\<lparr> players := ps \<rparr>,
               Some (BulkAdded addedCount skippedCount,
                     if addedCount > 0 \<and> skippedCount > 0 then Info
                     else if addedCount > 0 then Success else Error)))"

text \<open>\<^verbatim>\<open>saveEditPlayer\<close>: the inputs are the hidden id field, the name field and the level select.\<close>

definition saveEditPlayer :: "ident \<Rightarrow> string \<Rightarrow> level \<Rightarrow> state \<Rightarrow> state \<times> toast" where
  "saveEditPlayer editId nameInput newLevel s =
     (let newName = trim nameInput
      in if newName = [] then (s, Some (EnterName, Error))
         else
           case findPlayer (players s) editId of
             None \<Rightarrow> (s, None)
           | Some player \<Rightarrow>
               (s\<lparr> players := updatePlayer (\<lambda>p. p\<lparr> name := newName, level := newLevel \<rparr>)
                                editId (players s) \<rparr>,
                Some (PlayerEdited, Success)))"

section \<open>Import\<close>

text \<open>
  \<^verbatim>\<open>doImport\<close> works on whatever \<^verbatim>\<open>JSON.parse\<close> returns, so the session is seen here as
  what it is for \<^verbatim>\<open>Object.assign\<close>: an object, a finite map from property names to JSON
  values. \<^verbatim>\<open>JSON.parse\<close> itself is an input: \<open>parse text\<close> is \<open>None\<close> where it throws.
  A parsed object lists its properties in order; where a name is repeated the last
  entry counts, as in \<^verbatim>\<open>JSON.parse\<close>.
\<close>

datatype json =
    JNull
  | JBool bool
  | JNumber int
  | JString string
  | JArray "json list"
  | JObject "(string \<times> json) list"

type_synonym object = "string \<rightharpoonup> json"

text \<open>\<^verbatim>\<open>parsed.players\<close>: \<open>None\<close> is the \<^verbatim>\<open>TypeError\<close> on \<^verbatim>\<open>null\<close>, \<open>Some None\<close> is \<^verbatim>\<open>undefined\<close>.\<close>

fun getProperty :: "json \<Rightarrow> string \<Rightarrow> json option option" where
  "getProperty JNull key = None"
| "getProperty (JObject props) key = Some (map_of (rev props) key)"
| "getProperty v key = Some None"

text \<open>\<^verbatim>\<open>!v\<close> is true for \<^verbatim>\<open>undefined\<close>, \<^verbatim>\<open>null\<close>, \<^verbatim>\<open>false\<close>, \<^verbatim>\<open>0\<close> and \<^verbatim>\<open>""\<close>.\<close>

fun truthy :: "json option \<Rightarrow> bool" where
  "truthy None = False"
| "truthy (Some JNull) = False"
| "truthy (Some (JBool b)) = b"
| "truthy (Some (JNumber n)) = (n \<noteq> 0)"
| "truthy (Some (JString str)) = (str \<noteq> [])"
| "truthy (Some v) = True"

fun isArray :: "json option \<Rightarrow> bool" where
  "isArray (Some (JArray vs)) = True"
| "isArray v = False"

text \<open>
  \<^verbatim>\<open>Object.assign(state, parsed)\<close>: every own property of the source is written to the
  target with an ordinary assignment. For the key \<^verbatim>\<open>__proto__\<close> that assignment runs the
  setter of \<^verbatim>\<open>Object.prototype\<close>, which gives the target no property, so this key is not
  copied.
\<close>

fun ownProperties :: "json \<Rightarrow> (string \<times> json) list" where
  "ownProperties (JObject props) = props"
| "ownProperties v = []"

definition assignedProperties :: "json \<Rightarrow> (string \<times> json) list" where
  "assignedProperties source = filter (\<lambda>(key, v). key \<noteq> ''__proto__'') (ownProperties source)"

definition assign :: "object \<Rightarrow> json \<Rightarrow> object" where
  "assign target source = foldl (\<lambda>t (key, v). t(key \<mapsto> v)) target (assignedProperties source)"

text \<open>
  \<^verbatim>\<open>doImport\<close>: \<open>textareaValue\<close> is the text of the import field. Every exception raised
  in the \<^verbatim>\<open>try\<close> block ends in the same \<^verbatim>\<open>catch\<close>, which shows the error message. That
  holds for the calls after \<^verbatim>\<open>Object.assign\<close> too: \<^verbatim>\<open>saveToStorage\<close>, \<^verbatim>\<open>closeModal\<close>,
  \<^verbatim>\<open>initializeUI\<close> and \<^verbatim>\<open>renderAll\<close>. What they do is outside this model; whether they
  run to their end on the merged session is the input \<open>completes\<close>. When one of them
  throws, the error message is shown and the session stays merged.
\<close>

definition doImport ::
  "(string \<Rightarrow> json option) \<Rightarrow> (object \<Rightarrow> bool) \<Rightarrow> string \<Rightarrow> object \<Rightarrow> object \<times> toast" where
  "doImport parse completes textareaValue st =
     (let data = trim textareaValue
      in if data = [] then (st, Some (EnterData, Error))
         else
           case parse data of
             None \<Rightarrow> (st, Some (InvalidData, Error))
           | Some parsed \<Rightarrow>
               (case getProperty parsed ''players'' of
                  None \<Rightarrow> (st, Some (InvalidData, Error))
                | Some playersProp \<Rightarrow>
                    if \<not> truthy playersProp \<or> \<not> isArray playersProp
                    then (st, Some (InvalidData, Error))
                    else
                      let merged = assign st parsed
                      in if completes merged then (merged, Some (Imported, Success))
                         else (merged, Some (InvalidData, Error))))"

section \<open>Properties\<close>

text \<open>An eligible player is neither busy nor resting.\<close>

definition eligible :: "player \<Rightarrow> bool" where
  "eligible p \<longleftrightarrow> \<not> isPlaying p \<and> \<not> isResting p"

text \<open>No identifier occurs in two different lists of a list of identifier lists.\<close>

fun noOverlap :: "ident list list \<Rightarrow> bool" where
  "noOverlap [] = True"
| "noOverlap (x # xs) = ((\<forall>y \<in> set xs. set x \<inter> set y = {}) \<and> noOverlap xs)"

text \<open>
  The playing matches are the entries of \<^verbatim>\<open>state.currentMatches\<close>. No player id is in
  the teams of two of them:
\<close>

definition playingApart :: "state \<Rightarrow> bool" where
  "playingApart s = noOverlap (map (\<lambda>r. matchPlayers (store s r)) (currentMatches s))"

text \<open>Every member of a playing match that the roster knows is marked busy.\<close>

definition membersBusy :: "state \<Rightarrow> bool" where
  "membersBusy s \<longleftrightarrow>
     (\<forall>r \<in> set (currentMatches s). \<forall>x \<in> set (matchPlayers (store s r)).
        case findPlayer (players s) x of None \<Rightarrow> True | Some p \<Rightarrow> isPlaying p)"

text \<open>Every court number from 1 to the court count is the court of a playing match.\<close>

definition allCourtsOccupied :: "state \<Rightarrow> bool" where
  "allCourtsOccupied s \<longleftrightarrow>
     (\<forall>i \<in> {1 .. courtCount (settings s)}.
        \<exists>r \<in> set (currentMatches s). court (store s r) = Some i)"

text \<open>
  The body of the \<^verbatim>\<open>forEach\<close> in \<^verbatim>\<open>completeMatch\<close> and \<^verbatim>\<open>completeCurrentMatches\<close>, and
  what it achieves: the roster player with the id, if there is one, is not busy.
\<close>

definition release :: "ident \<Rightarrow> player \<Rightarrow> player" where
  "release playerId player = player\<lparr> isPlaying := False \<rparr>"

definition idle :: "player list \<Rightarrow> ident \<Rightarrow> bool" where
  "idle ps x \<longleftrightarrow> (\<forall>p. findPlayer ps x = Some p \<longrightarrow> \<not> isPlaying p)"

text \<open>
  The winner in the words of the specification: a set counts for the team whose score
  in it is strictly greater, and the team with more sets wins.
\<close>

definition setScores :: "scores \<Rightarrow> (int \<times> int) list" where
  "setScores sc = [(score1Set1 sc, score2Set1 sc), (score1Set2 sc, score2Set2 sc),
                   (score1Set3 sc, score2Set3 sc)]"

definition team1SetWins :: "scores \<Rightarrow> nat" where
  "team1SetWins sc = length (filter (\<lambda>(score1, score2). score1 > score2) (setScores sc))"

definition team2SetWins :: "scores \<Rightarrow> nat" where
  "team2SetWins sc = length (filter (\<lambda>(score1, score2). score2 > score1) (setScores sc))"

definition onWinningTeam :: "winner \<Rightarrow> match \<Rightarrow> ident \<Rightarrow> bool" where
  "onWinningTeam w m x \<longleftrightarrow> w = Team1 \<and> x \<in> set (team1 m) \<or> w = Team2 \<and> x \<in> set (team2 m)"

definition onLosingTeam :: "winner \<Rightarrow> match \<Rightarrow> ident \<Rightarrow> bool" where
  "onLosingTeam w m x \<longleftrightarrow> w = Team1 \<and> x \<in> set (team2 m) \<or> w = Team2 \<and> x \<in> set (team1 m)"

text \<open>A parsed payload has a \<^verbatim>\<open>players\<close> field that is an array.\<close>

definition hasPlayersArray :: "json \<Rightarrow> bool" where
  "hasPlayersArray parsed \<longleftrightarrow>
     (\<exists>props vs. parsed = JObject props \<and> map_of (rev props) ''players'' = Some (JArray vs))"

section \<open>Example sessions\<close>

definition examplePlayer :: "ident \<Rightarrow> level \<Rightarrow> bool \<Rightarrow> bool \<Rightarrow> player" where
  "examplePlayer i lvl busy resting =
     \<lparr> pid = i, name = i, level = lvl, matchCount = 0, isPlaying = busy, isResting = resting,
       wins = None, losses = None, createdAt = ''2024-05-01T09:00:00.000Z'' \<rparr>"

definition exampleMatch ::
  "ident \<Rightarrow> match_type \<Rightarrow> ident list \<Rightarrow> ident list \<Rightarrow> match_status \<Rightarrow> nat option \<Rightarrow> match" where
  "exampleMatch i mt t1 t2 st c =
     \<lparr> mid = i, mtype = mt, team1 = t1, team2 = t2, status = st, court = c,
       mcreatedAt = ''2024-05-01T09:05:00.000Z'', startedAt = None, completedAt = None,
       mscores = None, mwinner = None, roundId = None, roundNumber = None \<rparr>"

definition exampleGen :: "nat \<Rightarrow> ident" where
  "exampleGen n = replicate (Suc n) CHR ''m''"

definition exampleRnd :: "nat \<Rightarrow> nat" where
  "exampleRnd n = n"

definition exampleNow :: timestamp where
  "exampleNow = ''2024-05-01T10:00:00.000Z''"

text \<open>A pro, an advanced, an intermediate and a beginner, all idle, with no match played.\<close>

definition fourLevels :: "player list" where
  "fourLevels =
     [examplePlayer ''pro'' Pro False False, examplePlayer ''advanced'' Advanced False False,
      examplePlayer ''intermediate'' Intermediate False False,
      examplePlayer ''beginner'' Beginner False False]"

definition balancedDoubles :: settings where
  "balancedDoubles = \<lparr> matchType = Doubles, pairingMode = Balanced, courtCount = 1, multiCourt = False \<rparr>"

definition balancedSingles :: settings where
  "balancedSingles = \<lparr> matchType = Singles, pairingMode = Balanced, courtCount = 2, multiCourt = False \<rparr>"

definition twoCourtSingles :: settings where
  "twoCourtSingles = \<lparr> matchType = Singles, pairingMode = Random, courtCount = 2, multiCourt = False \<rparr>"

text \<open>
  Court 1 holds the match of \<open>a\<close> and \<open>b\<close>; \<open>c\<close> and \<open>d\<close> wait in the queue.
\<close>

definition sessionOneFree :: state where
  "sessionOneFree =
     \<lparr> players = [examplePlayer ''a'' Pro True False, examplePlayer ''b'' Pro True False,
                  examplePlayer ''c'' Pro False False, examplePlayer ''d'' Pro False False],
       store = (\<lambda>r. exampleMatch ''none'' Singles [] [] Pending None)
                 (0 := exampleMatch ''m1'' Singles [''a''] [''b''] Playing (Some 1),
                  1 := exampleMatch ''m2'' Singles [''c''] [''d''] Pending None),
       nextRef = 2, matches = [0, 1], currentMatches = [0], matchQueue = [1], rounds = [],
       settings = twoCourtSingles, currentRound = 1 \<rparr>"

text \<open>
  The same courts, but \<open>a\<close> is no longer marked busy although its match on court 1 is
  still playing, and the queued match is \<open>c\<close> against \<open>a\<close>.
\<close>

definition sessionStaleFlag :: state where
  "sessionStaleFlag =
     \<lparr> players = [examplePlayer ''a'' Pro False False, examplePlayer ''b'' Pro True False,
                  examplePlayer ''c'' Pro False False],
       store = (\<lambda>r. exampleMatch ''none'' Singles [] [] Pending None)
                 (0 := exampleMatch ''m1'' Singles [''a''] [''b''] Playing (Some 1),
                  1 := exampleMatch ''m2'' Singles [''c''] [''a''] Pending None),
       nextRef = 2, matches = [0, 1], currentMatches = [0], matchQueue = [1], rounds = [],
       settings = twoCourtSingles, currentRound = 1 \<rparr>"

text \<open>
  How a session gets there: with multi-court mode on, \<open>a\<close> is started on two courts, against
  \<open>b\<close> and against \<open>c\<close>; the mode is switched off (\<^verbatim>\<open>saveSetting('multiCourt', false)\<close>);
  the match against \<open>c\<close> is completed, which releases \<open>a\<close>; the next round is generated
  from the idle players \<open>a\<close> and \<open>c\<close>.
\<close>

definition sessionMultiCourt :: state where
  "sessionMultiCourt =
     \<lparr> players = [examplePlayer ''a'' Pro False False, examplePlayer ''b'' Pro False False,
                  examplePlayer ''c'' Pro False False],
       store = (\<lambda>r. exampleMatch ''none'' Singles [] [] Pending None)
                 (0 := exampleMatch ''m1'' Singles [''a''] [''b''] Pending None,
                  1 := exampleMatch ''m0'' Singles [''a''] [''c''] Pending None),
       nextRef = 2, matches = [0, 1], currentMatches = [], matchQueue = [0, 1], rounds = [],
       settings = twoCourtSingles\<lparr> multiCourt := True \<rparr>, currentRound = 1 \<rparr>"

definition sessionBeforeComplete :: state where
  "sessionBeforeComplete =
     (let s1 = fst (startNextMatch exampleNow sessionMultiCourt)
      in s1\<lparr> settings := (settings s1)\<lparr> multiCourt := False \<rparr> \<rparr>)"

definition sessionAfterMultiCourt :: state where
  "sessionAfterMultiCourt =
     fst (generateRound exampleGen exampleNow exampleRnd
            (fst (completeMatch exampleNow ''m0'' sessionBeforeComplete)))"

text \<open>An empty queue; both courts taken; a queue whose only match has a busy member.\<close>

definition sessionEmptyQueue :: state where
  "sessionEmptyQueue = sessionOneFree\<lparr> matchQueue := [] \<rparr>"

definition sessionCourtsFull :: state where
  "sessionCourtsFull =
     sessionOneFree\<lparr> settings := twoCourtSingles\<lparr> courtCount := 1 \<rparr> \<rparr>"

definition sessionBlocked :: state where
  "sessionBlocked =
     sessionOneFree\<lparr> store := (store sessionOneFree)
                        (1 := exampleMatch ''m2'' Singles [''b''] [''c''] Pending None) \<rparr>"

text \<open>
  Four idle players, one of them resting, doubles on one court, nothing generated yet.
\<close>

definition sessionOneResting :: state where
  "sessionOneResting =
     \<lparr> players = [examplePlayer ''a'' Pro False False, examplePlayer ''b'' Advanced False False,
                  examplePlayer ''c'' Intermediate False False,
                  examplePlayer ''d'' Beginner False True],
       store = (\<lambda>r. exampleMatch ''none'' Singles [] [] Pending None),
       nextRef = 0, matches = [], currentMatches = [], matchQueue = [], rounds = [],
       settings = balancedDoubles, currentRound = 0 \<rparr>"

text \<open>
  A doubles match on court 1: \<open>a\<close> and \<open>b\<close> against \<open>c\<close> and \<open>gone\<close>. The roster has
  \<open>a\<close>, \<open>b\<close> and \<open>c\<close>, all busy; no player has the id \<open>gone\<close>.
\<close>

definition sessionDoubles :: state where
  "sessionDoubles =
     \<lparr> players = [examplePlayer ''a'' Pro True False, examplePlayer ''b'' Beginner True False,
                  examplePlayer ''c'' Advanced True False],
       store = (\<lambda>r. exampleMatch ''none'' Singles [] [] Pending None)
                 (0 := exampleMatch ''m1'' Doubles [''a'', ''b''] [''c'', ''gone'']
                         Playing (Some 1)),
       nextRef = 1, matches = [0], currentMatches = [0], matchQueue = [], rounds = [],
       settings = balancedDoubles, currentRound = 1 \<rparr>"

text \<open>The scores 21:19, 18:21, 21:15.\<close>

definition exampleScores :: scores where
  "exampleScores = \<lparr> score1Set1 = 21, score1Set2 = 18, score1Set3 = 21,
                      score2Set1 = 19, score2Set2 = 21, score2Set3 = 15 \<rparr>"

text \<open>A roster of two: Ann and Bob.\<close>

definition sessionRoster :: state where
  "sessionRoster =
     \<lparr> players = [(examplePlayer ''p1'' Pro False False)\<lparr> name := ''Ann'' \<rparr>,
                  (examplePlayer ''p2'' Beginner False False)\<lparr> name := ''Bob'' \<rparr>],
       store = (\<lambda>r. exampleMatch ''none'' Singles [] [] Pending None),
       nextRef = 0, matches = [], currentMatches = [], matchQueue = [], rounds = [],
       settings = balancedDoubles, currentRound = 0 \<rparr>"

text \<open>
  Three payloads for the import, as \<^verbatim>\<open>JSON.parse\<close> reads them: an object whose only
  property is an empty \<^verbatim>\<open>players\<close> array; an object whose \<^verbatim>\<open>players\<close> is the number 5; an
  object whose \<^verbatim>\<open>players\<close> array holds one player with an id and no name. The session
  they are imported into has one player and is in round 3.
\<close>

definition quoted :: "string \<Rightarrow> string" where
  "quoted str = CHR 0x22 # str @ [CHR 0x22]"

definition playersOnlyText :: string where
  "playersOnlyText = ''{'' @ quoted ''players'' @ '': []}''"

definition playersNumberText :: string where
  "playersNumberText = ''{'' @ quoted ''players'' @ '': 5}''"

definition namelessPlayerText :: string where
  "namelessPlayerText =
     ''{'' @ quoted ''players'' @ '': [{'' @ quoted ''id'' @ '': '' @ quoted ''x'' @ ''}]}''"

definition exampleParse :: "string \<Rightarrow> json option" where
  "exampleParse text =
     (if text = playersOnlyText then Some (JObject [(''players'', JArray [])])
      else if text = playersNumberText then Some (JObject [(''players'', JNumber 5)])
      else if text = namelessPlayerText
        then Some (JObject [(''players'', JArray [JObject [(''id'', JString ''x'')]])])
      else None)"

definition sessionObject :: object where
  "sessionObject =
     [''players'' \<mapsto> JArray [JObject [(''id'', JString ''p1''), (''name'', JString ''Ann''),
                                         (''level'', JString ''pro''), (''matchCount'', JNumber 0),
                                         (''isPlaying'', JBool False)]],
      ''matches'' \<mapsto> JArray [],
      ''currentMatches'' \<mapsto> JArray [],
      ''matchQueue'' \<mapsto> JArray [],
      ''rounds'' \<mapsto> JArray [],
      ''settings'' \<mapsto> JObject [(''matchType'', JString ''doubles''),
                                  (''pairingMode'', JString ''random''),
                                  (''courtCount'', JNumber 2), (''multiCourt'', JBool False)],
      ''currentRound'' \<mapsto> JNumber 3]"

text \<open>
  An instance of \<open>completes\<close> for these sessions: \<^verbatim>\<open>renderPlayers\<close> evaluates
  \<^verbatim>\<open>player.name.charAt(0)\<close> for every player, which throws when a player has no name.
\<close>

fun hasName :: "json \<Rightarrow> bool" where
  "hasName (JObject props) =
     (case map_of (rev props) ''name'' of Some (JString str) \<Rightarrow> True | _ \<Rightarrow> False)"
| "hasName v = False"

definition exampleCompletes :: "object \<Rightarrow> bool" where
  "exampleCompletes st =
     (case st ''players'' of Some (JArray ps) \<Rightarrow> list_all hasName ps | _ \<Rightarrow> False)"

section \<open>The pairing engine orders a permutation of its pool\<close>

lemma mset_shuffleLoop:
  "i < length xs \<or> i = 0 \<Longrightarrow> mset (fst (shuffleLoop rnd k i xs)) = mset xs"
proof (induction i arbitrary: k xs)
  case 0
  then show ?case by simp
next
  case (Suc i)
  let ?j = "rnd k mod (Suc i + 1)"
  from Suc.prems have len: "Suc i < length xs" by simp
  have "?j < Suc i + 1" by (rule mod_less_divisor) simp
  with len have j: "?j < length xs" by linarith
  have sw: "mset (xs[Suc i := xs ! ?j, ?j := xs ! Suc i]) = mset xs"
    using mset_swap [OF j len] by simp
  have "i < length (xs[Suc i := xs ! ?j, ?j := xs ! Suc i])" using len by simp
  then have "mset (fst (shuffleLoop rnd (Suc k) i (xs[Suc i := xs ! ?j, ?j := xs ! Suc i]))) = mset xs"
    using Suc.IH sw by simp
  then show ?case by (simp add: Let_def)
qed

lemma mset_shuffleArray: "mset (fst (shuffleArray rnd k xs)) = mset xs"
  unfolding shuffleArray_def by (rule mset_shuffleLoop) (cases xs; simp)

lemma four_shape:
  assumes "4 \<le> length xs"
  obtains a b vs c z where "xs = a # b # vs @ [c, z]"
proof -
  from assms obtain a ys where xs: "xs = a # ys" and l1: "3 \<le> length ys" by (cases xs) auto
  from l1 obtain b zs where ys: "ys = b # zs" and l2: "2 \<le> length zs" by (cases ys) auto
  from l2 have "zs \<noteq> []" by auto
  then obtain ws z where zs: "zs = ws @ [z]" by (metis append_butlast_last_id)
  with l2 have "ws \<noteq> []" by auto
  then obtain vs c where ws: "ws = vs @ [c]" by (metis append_butlast_last_id)
  show ?thesis using that [of a b vs c z] by (simp add: xs ys zs ws)
qed

lemma balance_step:
  assumes "xs = a # b # vs @ [c, z]"
  shows "hd xs = a" "last (tl xs) = z" "hd (butlast (tl xs)) = b"
        "last (tl (butlast (tl xs))) = c" "butlast (tl (butlast (tl xs))) = vs"
proof -
  have t: "tl xs = (b # vs @ [c]) @ [z]" by (simp add: assms)
  have bt: "butlast (tl xs) = b # vs @ [c]" unfolding t by (rule butlast_snoc)
  show "hd xs = a" by (simp add: assms)
  show "last (tl xs) = z" unfolding t by (rule last_snoc)
  show "hd (butlast (tl xs)) = b" by (simp add: bt)
  show "last (tl (butlast (tl xs))) = c" by (simp add: bt)
  show "butlast (tl (butlast (tl xs))) = vs" by (simp add: bt)
qed

lemma mset_balanceLoop: "mset (balanceLoop srt res) = mset res + mset srt"
proof (induction srt res rule: balanceLoop.induct)
  case (1 srt res)
  show ?case
  proof (cases "4 \<le> length srt")
    case True
    then obtain a b vs c z where shape: "srt = a # b # vs @ [c, z]" by (rule four_shape)
    note st = balance_step [OF shape]
    have IH: "mset (balanceLoop vs (res @ [a, c, b, z])) = mset (res @ [a, c, b, z]) + mset vs"
      using "1.IH" [OF True refl refl refl refl refl refl refl refl] by (simp only: st)
    have "balanceLoop srt res = balanceLoop vs (res @ [a, c, b, z])"
      by (subst balanceLoop.simps) (simp only: True if_True Let_def st)
    then show ?thesis by (simp add: IH shape)
  next
    case False
    then show ?thesis by (subst balanceLoop.simps) simp
  qed
qed

lemma mset_balancePlayers: "mset (balancePlayers mt ps) = mset ps"
  by (simp add: balancePlayers_def mset_balanceLoop)

lemma mset_filter_level:
  "mset (filter (\<lambda>p. level p = Pro) ps) + mset (filter (\<lambda>p. level p = Advanced) ps)
   + mset (filter (\<lambda>p. level p = Intermediate) ps) + mset (filter (\<lambda>p. level p = Beginner) ps)
   = mset ps"
proof (induction ps)
  case Nil
  then show ?case by simp
next
  case (Cons p ps)
  then show ?case by (cases "level p") simp_all
qed

lemma mset_separateByLevel: "mset (fst (separateByLevel rnd k ps)) = mset ps"
proof -
  obtain g1 k1 where e1: "shuffleArray rnd k (filter (\<lambda>p. level p = Pro) ps) = (g1, k1)" by force
  obtain g2 k2 where e2: "shuffleArray rnd k1 (filter (\<lambda>p. level p = Advanced) ps) = (g2, k2)" by force
  obtain g3 k3 where e3: "shuffleArray rnd k2 (filter (\<lambda>p. level p = Intermediate) ps) = (g3, k3)" by force
  obtain g4 k4 where e4: "shuffleArray rnd k3 (filter (\<lambda>p. level p = Beginner) ps) = (g4, k4)" by force
  have m1: "mset g1 = mset (filter (\<lambda>p. level p = Pro) ps)"
    using mset_shuffleArray [of rnd k "filter (\<lambda>p. level p = Pro) ps"] e1 by simp
  have m2: "mset g2 = mset (filter (\<lambda>p. level p = Advanced) ps)"
    using mset_shuffleArray [of rnd k1 "filter (\<lambda>p. level p = Advanced) ps"] e2 by simp
  have m3: "mset g3 = mset (filter (\<lambda>p. level p = Intermediate) ps)"
    using mset_shuffleArray [of rnd k2 "filter (\<lambda>p. level p = Intermediate) ps"] e3 by simp
  have m4: "mset g4 = mset (filter (\<lambda>p. level p = Beginner) ps)"
    using mset_shuffleArray [of rnd k3 "filter (\<lambda>p. level p = Beginner) ps"] e4 by simp
  have "mset (g1 @ g2 @ g3 @ g4) = mset ps"
    using mset_filter_level [of ps] by (simp only: mset_append m1 m2 m3 m4 add.assoc)
  then show ?thesis by (simp add: separateByLevel_def e1 e2 e3 e4)
qed

lemma mset_orderByMode: "mset (orderByMode st rnd ps) = mset ps"
  by (cases "pairingMode st")
     (simp_all add: orderByMode_def mset_shuffleArray mset_balancePlayers mset_separateByLevel)

text \<open>So the fairness-sorted pool has the ids and the size of the pool.\<close>

lemma mset_fairness: "mset (sort_key matchCount (orderByMode st rnd ps)) = mset ps"
  by (simp add: mset_orderByMode)

lemma distinct_fairness:
  assumes "distinct (map pid ps)"
  shows "distinct (map pid (sort_key matchCount (orderByMode st rnd ps)))"
proof -
  have "mset (map pid (sort_key matchCount (orderByMode st rnd ps))) = mset (map pid ps)"
    using mset_fairness [of st rnd ps] by (metis mset_map)
  then show ?thesis using assms by (metis mset_eq_imp_distinct_iff)
qed

lemma length_fairness: "length (sort_key matchCount (orderByMode st rnd ps)) = length ps"
  using mset_fairness [of st rnd ps] by (metis size_mset)

section \<open>Match formation\<close>

lemma per_team_half: "playersPerMatch mt = playersPerTeam mt + playersPerTeam mt"
  by (simp add: playersPerMatch_def playersPerTeam_def)

lemma noOverlap_snoc:
  "noOverlap (xs @ [x]) \<longleftrightarrow> noOverlap xs \<and> (\<forall>y \<in> set xs. set y \<inter> set x = {})"
  by (induction xs) auto

text \<open>The teams of a new match are the two halves of the selected players.\<close>

lemma newMatch_players:
  "matchPlayers (newMatch st newId now sel) = map pid sel"
  unfolding newMatch_def matchPlayers_def
  by (simp only: match.simps flip: map_append) (simp only: append_take_drop_id)

lemma newMatch_sizes:
  assumes "length sel = playersPerMatch (matchType st)"
  shows "length (team1 (newMatch st newId now sel)) = playersPerTeam (matchType st)"
    and "length (team2 (newMatch st newId now sel)) = playersPerTeam (matchType st)"
  using assms by (simp_all add: newMatch_def per_team_half)

text \<open>
  The loop of \<^verbatim>\<open>generateMatches\<close> stops when no court is left to fill or too few players
  are left; otherwise it pushes the match of the first players that are not used yet.
\<close>

lemma createLoop_stop:
  assumes "\<not> (n < courtCount st
             \<and> \<not> length (filter (\<lambda>p. pid p \<notin> used) sh) < playersPerMatch (matchType st))"
  shows "createLoop st gen now sh n used ms = ms"
  using assms by (subst createLoop.simps) (auto simp: Let_def)

lemma createLoop_turn:
  assumes "n < courtCount st
           \<and> \<not> length (filter (\<lambda>p. pid p \<notin> used) sh) < playersPerMatch (matchType st)"
  shows "createLoop st gen now sh n used ms =
         createLoop st gen now sh (Suc n)
           (used \<union> set (map pid (take (playersPerMatch (matchType st))
                                     (filter (\<lambda>p. pid p \<notin> used) sh))))
           (ms @ [newMatch st (gen n) now
                    (take (playersPerMatch (matchType st)) (filter (\<lambda>p. pid p \<notin> used) sh))])"
  using assms by (subst createLoop.simps) (simp add: Let_def)

text \<open>An invariant of the matches pushed so far is an invariant of the result.\<close>

lemma createLoop_teams:
  assumes "distinct (map pid sh)"
    and "\<forall>m \<in> set ms. length (team1 m) = playersPerTeam (matchType st)
                       \<and> length (team2 m) = playersPerTeam (matchType st)
                       \<and> distinct (matchPlayers m)"
  shows "\<forall>m \<in> set (createLoop st gen now sh n used ms).
           length (team1 m) = playersPerTeam (matchType st)
           \<and> length (team2 m) = playersPerTeam (matchType st)
           \<and> distinct (matchPlayers m)"
  using assms
proof (induction st gen now sh n used ms rule: createLoop.induct)
  case (1 st gen now sh n used ms)
  let ?av = "filter (\<lambda>p. pid p \<notin> used) sh"
  let ?ppm = "playersPerMatch (matchType st)"
  let ?m = "newMatch st (gen n) now (take ?ppm ?av)"
  show ?case
  proof (cases "n < courtCount st \<and> \<not> length ?av < ?ppm")
    case False
    show ?thesis using "1.prems"(2) by (simp only: createLoop_stop [OF False])
  next
    case True
    have len: "length (take ?ppm ?av) = ?ppm" using True by simp
    have "distinct (map pid (take ?ppm ?av))"
      using "1.prems"(1) by (simp only: take_map [symmetric] distinct_take distinct_map_filter)
    then have d: "distinct (matchPlayers ?m)" by (simp only: newMatch_players)
    show ?thesis
      unfolding createLoop_turn [OF True]
    proof (rule "1.IH" [OF _ refl _ refl refl])
      show "n < courtCount st" using True by simp
      show "\<not> length ?av < ?ppm" using True by simp
      show "distinct (map pid sh)" by (rule "1.prems"(1))
      show "\<forall>x \<in> set (ms @ [?m]). length (team1 x) = playersPerTeam (matchType st)
              \<and> length (team2 x) = playersPerTeam (matchType st) \<and> distinct (matchPlayers x)"
        using "1.prems"(2) newMatch_sizes [OF len] d by simp
    qed
  qed
qed

lemma createLoop_count:
  "length (createLoop st gen now sh n used ms) \<le> length ms + (courtCount st - n)"
proof (induction st gen now sh n used ms rule: createLoop.induct)
  case (1 st gen now sh n used ms)
  let ?av = "filter (\<lambda>p. pid p \<notin> used) sh"
  let ?ppm = "playersPerMatch (matchType st)"
  let ?m = "newMatch st (gen n) now (take ?ppm ?av)"
  show ?case
  proof (cases "n < courtCount st \<and> \<not> length ?av < ?ppm")
    case False
    show ?thesis by (simp add: createLoop_stop [OF False])
  next
    case True
    have "length (createLoop st gen now sh (Suc n) (used \<union> set (map pid (take ?ppm ?av))) (ms @ [?m]))
            \<le> length (ms @ [?m]) + (courtCount st - Suc n)"
      using True by (intro "1.IH" [OF _ refl _ refl refl]) simp_all
    moreover from True have "n < courtCount st" by simp
    then have "length (ms @ [?m]) + (courtCount st - Suc n) = length ms + (courtCount st - n)"
      by simp
    ultimately show ?thesis by (simp only: createLoop_turn [OF True])
  qed
qed

text \<open>The players that a match selects are no longer available afterwards.\<close>

lemma filter_used_step:
  fixes sh :: "player list"
  assumes "k \<le> length (filter (\<lambda>p. pid p \<notin> used) sh)"
  shows "length (filter (\<lambda>p. pid p \<notin> used \<union> set (map pid (take k (filter (\<lambda>p. pid p \<notin> used) sh)))) sh) + k
         \<le> length (filter (\<lambda>p. pid p \<notin> used) sh)"
proof -
  let ?av = "filter (\<lambda>p. pid p \<notin> used) sh"
  let ?S = "set (map pid (take k ?av))"
  have "filter (\<lambda>p. pid p \<notin> used \<union> ?S) sh = filter (\<lambda>p. pid p \<notin> ?S) ?av"
    by (simp add: conj_commute)
  also have "\<dots> = filter (\<lambda>p. pid p \<notin> ?S) (take k ?av) @ filter (\<lambda>p. pid p \<notin> ?S) (drop k ?av)"
    by (metis append_take_drop_id filter_append)
  also have "filter (\<lambda>p. pid p \<notin> ?S) (take k ?av) = []"
    by (simp add: filter_empty_conv)
  finally have eq: "filter (\<lambda>p. pid p \<notin> used \<union> ?S) sh
                     = filter (\<lambda>p. pid p \<notin> ?S) (drop k ?av)"
    by simp
  have "length (filter (\<lambda>p. pid p \<notin> ?S) (drop k ?av)) \<le> length (drop k ?av)"
    by (rule length_filter_le)
  then show ?thesis using assms by (simp only: eq length_drop)
qed

lemma createLoop_consumes:
  "length (createLoop st gen now sh n used ms) * playersPerMatch (matchType st)
     \<le> length ms * playersPerMatch (matchType st) + length (filter (\<lambda>p. pid p \<notin> used) sh)"
proof (induction st gen now sh n used ms rule: createLoop.induct)
  case (1 st gen now sh n used ms)
  let ?av = "filter (\<lambda>p. pid p \<notin> used) sh"
  let ?ppm = "playersPerMatch (matchType st)"
  let ?m = "newMatch st (gen n) now (take ?ppm ?av)"
  let ?used' = "used \<union> set (map pid (take ?ppm ?av))"
  show ?case
  proof (cases "n < courtCount st \<and> \<not> length ?av < ?ppm")
    case False
    show ?thesis by (simp add: createLoop_stop [OF False])
  next
    case True
    have le: "?ppm \<le> length ?av" using True by simp
    have "length (createLoop st gen now sh (Suc n) ?used' (ms @ [?m])) * ?ppm
            \<le> length (ms @ [?m]) * ?ppm + length (filter (\<lambda>p. pid p \<notin> ?used') sh)"
      using True by (intro "1.IH" [OF _ refl _ refl refl]) simp_all
    moreover have "length (filter (\<lambda>p. pid p \<notin> ?used') sh) + ?ppm \<le> length ?av"
      using le by (rule filter_used_step)
    ultimately show ?thesis unfolding createLoop_turn [OF True] by (simp add: algebra_simps)
  qed
qed

lemma createLoop_apart:
  assumes "noOverlap (map matchPlayers ms)" and "\<forall>m \<in> set ms. set (matchPlayers m) \<subseteq> used"
  shows "noOverlap (map matchPlayers (createLoop st gen now sh n used ms))"
  using assms
proof (induction st gen now sh n used ms rule: createLoop.induct)
  case (1 st gen now sh n used ms)
  let ?av = "filter (\<lambda>p. pid p \<notin> used) sh"
  let ?ppm = "playersPerMatch (matchType st)"
  let ?m = "newMatch st (gen n) now (take ?ppm ?av)"
  show ?case
  proof (cases "n < courtCount st \<and> \<not> length ?av < ?ppm")
    case False
    show ?thesis using "1.prems"(1) by (simp only: createLoop_stop [OF False])
  next
    case True
    have "set (take ?ppm ?av) \<subseteq> set ?av" by (rule set_take_subset)
    then have fresh: "set (matchPlayers ?m) \<inter> used = {}"
      unfolding newMatch_players by auto
    show ?thesis
      unfolding createLoop_turn [OF True]
    proof (rule "1.IH" [OF _ refl _ refl refl])
      show "n < courtCount st" using True by simp
      show "\<not> length ?av < ?ppm" using True by simp
      show "noOverlap (map matchPlayers (ms @ [?m]))"
        using "1.prems" fresh by (auto simp: noOverlap_snoc)
      show "\<forall>x \<in> set (ms @ [?m]). set (matchPlayers x) \<subseteq> used \<union> set (map pid (take ?ppm ?av))"
        using "1.prems"(2) by (auto simp: newMatch_players)
    qed
  qed
qed

lemma createLoop_chunks:
  assumes "\<forall>m \<in> set ms. length (matchPlayers m) = playersPerMatch (matchType st)"
  shows "\<forall>m \<in> set (createLoop st gen now sh n used ms).
           length (matchPlayers m) = playersPerMatch (matchType st)"
  using assms
proof (induction st gen now sh n used ms rule: createLoop.induct)
  case (1 st gen now sh n used ms)
  let ?av = "filter (\<lambda>p. pid p \<notin> used) sh"
  let ?ppm = "playersPerMatch (matchType st)"
  let ?m = "newMatch st (gen n) now (take ?ppm ?av)"
  show ?case
  proof (cases "n < courtCount st \<and> \<not> length ?av < ?ppm")
    case False
    show ?thesis using "1.prems" by (simp only: createLoop_stop [OF False])
  next
    case True
    have len: "length (matchPlayers ?m) = ?ppm" using True by (simp add: newMatch_players)
    show ?thesis
      unfolding createLoop_turn [OF True]
    proof (rule "1.IH" [OF _ refl _ refl refl])
      show "n < courtCount st" using True by simp
      show "\<not> length ?av < ?ppm" using True by simp
      show "\<forall>x \<in> set (ms @ [?m]). length (matchPlayers x) = ?ppm"
        using "1.prems" len by simp
    qed
  qed
qed

section \<open>Claims about the pairing engine\<close>

text \<open>
  The two example pools, run through \<^verbatim>\<open>generateMatches\<close>: the teams of the matches it returns.
\<close>

lemma fourLevels_doubles:
  "map (\<lambda>m. (team1 m, team2 m))
     (generateMatches balancedDoubles exampleGen exampleNow exampleRnd fourLevels)
   = [([''pro'', ''intermediate''], [''advanced'', ''beginner''])]"
  by (simp add: generateMatches_def originalGenerateMatches_def orderByMode_def
        balancePlayers_def balancedDoubles_def fourLevels_def examplePlayer_def
        playersPerMatch_def playersPerTeam_def balanceLoop.simps createLoop.simps newMatch_def)

lemma fourLevels_singles:
  "map (\<lambda>m. (team1 m, team2 m))
     (generateMatches balancedSingles exampleGen exampleNow exampleRnd
        (filter (\<lambda>p. \<not> isPlaying p) fourLevels))
   = [([''beginner''], [''intermediate'']), ([''advanced''], [''pro''])]"
  by (simp add: generateMatches_def originalGenerateMatches_def orderByMode_def
        balancePlayers_def balancedSingles_def fourLevels_def examplePlayer_def
        playersPerMatch_def playersPerTeam_def createLoop.simps newMatch_def)

text \<open>
  C1. Balanced doubles, one court, four eligible players with the weights 4, 3, 2, 1 and
  equal match counts: \<^verbatim>\<open>balancePlayers\<close> pushes strongest, second weakest, second
  strongest, weakest, and \<^verbatim>\<open>generateMatches\<close> cuts the group in two halves. The match
  emitted is therefore [pro, intermediate] against [advanced, beginner], not
  [pro, beginner] against [advanced, intermediate].
\<close>

theorem balanced_doubles_pairs_strongest_with_second_weakest:
  "map (\<lambda>m. (team1 m, team2 m))
     (generateMatches balancedDoubles exampleGen exampleNow exampleRnd fourLevels)
   = [([''pro'', ''intermediate''], [''advanced'', ''beginner''])]
   \<and> map (\<lambda>m. (team1 m, team2 m))
     (generateMatches balancedDoubles exampleGen exampleNow exampleRnd fourLevels)
   \<noteq> [([''pro'', ''beginner''], [''advanced'', ''intermediate''])]"
  by (simp add: fourLevels_doubles)

text \<open>
  C6. Whatever the pairing mode, the match type, the court count and the random draws:
  when the players of the pool have pairwise distinct ids, every match that
  \<^verbatim>\<open>generateMatches\<close> emits has two teams of the size of the match type (2 for doubles,
  1 for singles), and no id is in both teams.
\<close>

theorem generated_teams_sized_and_disjoint:
  assumes "distinct (map pid pool)"
  shows "\<forall>m \<in> set (generateMatches st gen now rnd pool).
           length (team1 m) = playersPerTeam (matchType st)
           \<and> length (team2 m) = playersPerTeam (matchType st)
           \<and> set (team1 m) \<inter> set (team2 m) = {}"
proof -
  let ?active = "filter (\<lambda>p. \<not> isResting p) pool"
  have "distinct (map pid ?active)" using assms by (rule distinct_map_filter)
  then have "distinct (map pid (sort_key matchCount (orderByMode st rnd ?active)))"
    by (rule distinct_fairness)
  then have "\<forall>m \<in> set (createLoop st gen now (sort_key matchCount (orderByMode st rnd ?active))
                          0 {} []).
               length (team1 m) = playersPerTeam (matchType st)
               \<and> length (team2 m) = playersPerTeam (matchType st)
               \<and> distinct (matchPlayers m)"
    by (rule createLoop_teams) simp
  then show ?thesis
    by (simp add: generateMatches_def originalGenerateMatches_def matchPlayers_def)
qed

theorem generated_teams_sized_and_disjoint_witness:
  "distinct (map pid fourLevels)
   \<and> map (\<lambda>m. (length (team1 m), length (team2 m), set (team1 m) \<inter> set (team2 m) = {}))
       (generateMatches balancedDoubles exampleGen exampleNow exampleRnd fourLevels)
     = [(2, 2, True)]"
proof -
  have d: "distinct (map pid fourLevels)" by (simp add: fourLevels_def examplePlayer_def)
  obtain m where one: "generateMatches balancedDoubles exampleGen exampleNow exampleRnd fourLevels = [m]"
    using fourLevels_doubles by auto
  have "length (team1 m) = 2 \<and> length (team2 m) = 2 \<and> set (team1 m) \<inter> set (team2 m) = {}"
    using generated_teams_sized_and_disjoint [OF d, of balancedDoubles exampleGen exampleNow exampleRnd]
    unfolding one by (simp add: balancedDoubles_def playersPerTeam_def)
  then show ?thesis using d by (simp add: one)
qed

text \<open>
  C7. A round is generated from the roster players that are not busy. The number of
  matches that \<^verbatim>\<open>generateMatches\<close> emits for it is at most the court count and at most
  the number of eligible players divided by the players per match, rounded down; every
  match takes that many players, and no id is taken by two matches of the round.
\<close>

theorem round_matches_bounded:
  "length (generateMatches st gen now rnd (filter (\<lambda>p. \<not> isPlaying p) ps)) \<le> courtCount st
   \<and> length (generateMatches st gen now rnd (filter (\<lambda>p. \<not> isPlaying p) ps))
       \<le> length (filter eligible ps) div playersPerMatch (matchType st)
   \<and> (\<forall>m \<in> set (generateMatches st gen now rnd (filter (\<lambda>p. \<not> isPlaying p) ps)).
         length (matchPlayers m) = playersPerMatch (matchType st))
   \<and> noOverlap (map matchPlayers
                   (generateMatches st gen now rnd (filter (\<lambda>p. \<not> isPlaying p) ps)))"
proof -
  let ?active = "filter (\<lambda>p. \<not> isResting p) (filter (\<lambda>p. \<not> isPlaying p) ps)"
  let ?sh = "sort_key matchCount (orderByMode st rnd ?active)"
  let ?ms = "generateMatches st gen now rnd (filter (\<lambda>p. \<not> isPlaying p) ps)"
  let ?ppm = "playersPerMatch (matchType st)"
  have ms: "?ms = createLoop st gen now ?sh 0 {} []"
    by (simp add: generateMatches_def originalGenerateMatches_def)
  have active: "?active = filter eligible ps"
    by (simp add: eligible_def [abs_def] conj_commute)
  have pos: "0 < ?ppm" by (simp add: playersPerMatch_def)
  have "length ?ms \<le> courtCount st"
    using createLoop_count [of st gen now ?sh 0 "{}" "[]"] by (simp add: ms)
  moreover have "length ?ms * ?ppm \<le> length ?sh"
    using createLoop_consumes [of st gen now ?sh 0 "{}" "[]"] by (simp add: ms)
  then have "length ?ms * ?ppm \<le> length (filter eligible ps)"
    by (simp only: length_fairness active)
  then have "length ?ms \<le> length (filter eligible ps) div ?ppm"
    using pos by (simp add: less_eq_div_iff_mult_less_eq)
  moreover have "\<forall>m \<in> set ?ms. length (matchPlayers m) = ?ppm"
    unfolding ms by (rule createLoop_chunks) simp
  moreover have "noOverlap (map matchPlayers ?ms)"
    unfolding ms by (rule createLoop_apart) simp_all
  ultimately show ?thesis by blast
qed

theorem round_matches_bounded_witness:
  "length (generateMatches balancedSingles exampleGen exampleNow exampleRnd
             (filter (\<lambda>p. \<not> isPlaying p) fourLevels)) = 2
   \<and> courtCount balancedSingles = 2
   \<and> length (filter eligible fourLevels) div playersPerMatch (matchType balancedSingles) = 2
   \<and> map (\<lambda>m. length (matchPlayers m))
        (generateMatches balancedSingles exampleGen exampleNow exampleRnd
           (filter (\<lambda>p. \<not> isPlaying p) fourLevels)) = [2, 2]
   \<and> noOverlap (map matchPlayers
        (generateMatches balancedSingles exampleGen exampleNow exampleRnd
           (filter (\<lambda>p. \<not> isPlaying p) fourLevels)))"
proof -
  obtain m1 m2 where two:
    "generateMatches balancedSingles exampleGen exampleNow exampleRnd
       (filter (\<lambda>p. \<not> isPlaying p) fourLevels) = [m1, m2]"
    using fourLevels_singles by auto
  have "length (filter eligible fourLevels) div playersPerMatch (matchType balancedSingles) = 2"
    by (simp add: fourLevels_def examplePlayer_def eligible_def playersPerMatch_def
          balancedSingles_def)
  then show ?thesis
    using round_matches_bounded [of balancedSingles exampleGen exampleNow exampleRnd fourLevels]
    unfolding two by (simp add: balancedSingles_def playersPerMatch_def)
qed

section \<open>Looking a player up after a \<^verbatim>\<open>forEach\<close> over player ids\<close>

text \<open>The bodies in app.js change flags and counters, never the id.\<close>

lemma pid_updatePlayer:
  assumes "\<And>p. pid (f p) = pid p"
  shows "map pid (updatePlayer f i ps) = map pid ps"
  by (induction ps) (simp_all add: assms)

lemma find_updatePlayer:
  assumes "\<And>p. pid (f p) = pid p"
  shows "findPlayer (updatePlayer f i ps) x
         = (if x = i then map_option f (findPlayer ps x) else findPlayer ps x)"
  by (induction ps) (auto simp: findPlayer_def assms)

lemma find_forEachPlayer_other:
  assumes "\<And>i p. pid (f i p) = pid p" and "x \<notin> set ids"
  shows "findPlayer (forEachPlayer f ids ps) x = findPlayer ps x"
  using assms(2)
proof (induction ids arbitrary: ps)
  case Nil
  then show ?case by simp
next
  case (Cons i ids)
  then show ?case by (simp add: find_updatePlayer assms(1))
qed

lemma find_forEachPlayer_distinct:
  assumes "\<And>i p. pid (f i p) = pid p" and "distinct ids" and "x \<in> set ids"
  shows "findPlayer (forEachPlayer f ids ps) x = map_option (f x) (findPlayer ps x)"
  using assms(2,3)
proof (induction ids arbitrary: ps)
  case Nil
  then show ?case by simp
next
  case (Cons i ids)
  show ?case
  proof (cases "x = i")
    case True
    then have "x \<notin> set ids" using Cons.prems by simp
    then show ?thesis
      using True by (simp add: find_forEachPlayer_other assms(1) find_updatePlayer)
  next
    case False
    then show ?thesis using Cons by (simp add: find_updatePlayer assms(1))
  qed
qed

lemma find_forEachPlayer_None:
  assumes "\<And>i p. pid (f i p) = pid p"
  shows "findPlayer (forEachPlayer f ids ps) x = None \<longleftrightarrow> findPlayer ps x = None"
proof (induction ids arbitrary: ps)
  case Nil
  then show ?case by simp
next
  case (Cons i ids)
  then show ?case by (simp add: find_updatePlayer assms)
qed

text \<open>
  A property that every body preserves is kept by every player of the roster; a property
  that every body establishes holds afterwards of each visited player that was found.
\<close>

lemma find_forEachPlayer_preserves:
  assumes "\<And>i p. pid (f i p) = pid p" and "\<And>i p. Q p \<Longrightarrow> Q (f i p)"
    and "findPlayer ps x = Some p" and "Q p"
  shows "\<exists>p'. findPlayer (forEachPlayer f ids ps) x = Some p' \<and> Q p'"
  using assms(3,4)
proof (induction ids arbitrary: ps p)
  case Nil
  then show ?case by simp
next
  case (Cons i ids)
  show ?case
  proof (cases "x = i")
    case True
    have "findPlayer (updatePlayer (f i) i ps) x = Some (f i p)"
      using True Cons.prems(1) by (simp add: find_updatePlayer assms(1))
    moreover have "Q (f i p)" using Cons.prems(2) by (rule assms(2))
    ultimately show ?thesis using Cons.IH by simp
  next
    case False
    have "findPlayer (updatePlayer (f i) i ps) x = Some p"
      using False Cons.prems(1) by (simp add: find_updatePlayer assms(1))
    then show ?thesis using Cons.IH Cons.prems(2) by simp
  qed
qed

lemma find_forEachPlayer_establishes:
  assumes "\<And>i p. pid (f i p) = pid p" and "\<And>i p. Q (f i p)"
    and "findPlayer ps x = Some p" and "x \<in> set ids"
  shows "\<exists>p'. findPlayer (forEachPlayer f ids ps) x = Some p' \<and> Q p'"
  using assms(3,4)
proof (induction ids arbitrary: ps p)
  case Nil
  then show ?case by simp
next
  case (Cons i ids)
  show ?case
  proof (cases "x = i")
    case True
    have "findPlayer (updatePlayer (f i) i ps) x = Some (f i p)"
      using True Cons.prems(1) by (simp add: find_updatePlayer assms(1))
    moreover have "Q (f i p)" by (rule assms(2))
    moreover have "\<And>i p. Q p \<Longrightarrow> Q (f i p)" by (rule assms(2))
    ultimately show ?thesis
      using find_forEachPlayer_preserves [where f = f and Q = Q, OF assms(1)] by simp
  next
    case False
    have "findPlayer (updatePlayer (f i) i ps) x = Some p"
      using False Cons.prems(1) by (simp add: find_updatePlayer assms(1))
    then show ?thesis using Cons.IH Cons.prems(2) False by simp
  qed
qed

section \<open>Dispatch scheduler\<close>

lemma findIndex_None: "findIndex P xs = None \<longleftrightarrow> (\<forall>x \<in> set xs. \<not> P x)"
  by (induction xs) auto

lemma findIndex_Some:
  "findIndex P xs = Some i \<Longrightarrow> i < length xs \<and> P (xs ! i)"
proof (induction xs arbitrary: i)
  case Nil
  then show ?case by simp
next
  case (Cons x xs)
  then show ?case by (auto split: if_splits)
qed

lemma getAvailableCourts_empty: "getAvailableCourts s = [] \<longleftrightarrow> allCourtsOccupied s"
proof -
  have "getAvailableCourts s = [] \<longleftrightarrow>
        (\<forall>i \<in> set [1 ..< Suc (courtCount (settings s))].
           Some i \<in> set (map (\<lambda>r. court (store s r)) (currentMatches s)))"
    by (simp add: getAvailableCourts_def filter_empty_conv)
  also have "\<dots> \<longleftrightarrow> allCourtsOccupied s"
    unfolding allCourtsOccupied_def set_upt atLeastLessThanSuc_atLeastAtMost set_map image_iff
    by (rule ball_cong [OF refl]) (rule bex_cong [OF refl], rule eq_commute)
  finally show ?thesis .
qed

lemma startLoop_blocked:
  assumes "\<forall>r \<in> set (matchQueue s). \<not> canStart s r"
  shows "startLoop now courts s n = (s, n)"
proof (cases courts)
  case Nil
  then show ?thesis by simp
next
  case (Cons c cs)
  have "findIndex (canStart s) (matchQueue s) = None" using assms by (simp add: findIndex_None)
  then show ?thesis using Cons by simp
qed

text \<open>
  Starting a queued match that passed the eligibility test keeps the playing matches
  apart, as long as multi-court mode is off and the busy flags of the members of the
  playing matches are set.
\<close>

lemma matchPlayers_started [simp]:
  "matchPlayers (m\<lparr> status := a, court := b, startedAt := c \<rparr>) = matchPlayers m"
  by (simp add: matchPlayers_def)

lemma startOnCourt_inv:
  assumes apart: "playingApart s" and busy: "membersBusy s" and single: "\<not> multiCourt (settings s)"
    and idx: "findIndex (canStart s) (matchQueue s) = Some i"
  shows "playingApart (startOnCourt now s c i) \<and> membersBusy (startOnCourt now s c i)
         \<and> \<not> multiCourt (settings (startOnCourt now s c i))"
proof -
  define r where "r = matchQueue s ! i"
  define ids where "ids = matchPlayers (store s r)"
  define mark where "mark = (\<lambda>(playerId :: ident) (player :: player). player\<lparr> isPlaying := True,
                                 matchCount := matchCount player + 1 \<rparr>)"
  let ?s' = "startOnCourt now s c i"
  have can: "canStart s r" using findIndex_Some [OF idx] by (simp add: r_def)
  have free: "\<exists>p. findPlayer (players s) x = Some p \<and> \<not> isPlaying p" if "x \<in> set ids" for x
    using can that single
    by (auto simp: canStart_def list_all_iff ids_def split: option.splits)
  have mp: "matchPlayers (store ?s' q) = matchPlayers (store s q)" for q
    by (simp add: startOnCourt_def Let_def r_def)
  have cm: "currentMatches ?s' = currentMatches s @ [r]"
    by (simp add: startOnCourt_def Let_def r_def)
  have pl: "players ?s' = forEachPlayer mark ids (players s)"
    by (simp add: startOnCourt_def Let_def r_def ids_def mark_def)
  have pidm: "\<And>i p. pid (mark i p) = pid p" by (simp add: mark_def)
  have disj: "set (matchPlayers (store s q)) \<inter> set ids = {}" if "q \<in> set (currentMatches s)" for q
  proof (rule ccontr)
    assume "set (matchPlayers (store s q)) \<inter> set ids \<noteq> {}"
    then obtain x where x1: "x \<in> set (matchPlayers (store s q))" and x2: "x \<in> set ids" by auto
    from free [OF x2] obtain p where "findPlayer (players s) x = Some p" "\<not> isPlaying p" by auto
    moreover from busy that x1
    have "case findPlayer (players s) x of None \<Rightarrow> True | Some p \<Rightarrow> isPlaying p"
      by (auto simp: membersBusy_def)
    ultimately show False by simp
  qed
  have A: "playingApart ?s'"
    using apart disj by (simp add: playingApart_def cm mp noOverlap_snoc ids_def)
  have keep: "case findPlayer (players ?s') x of None \<Rightarrow> True | Some p \<Rightarrow> isPlaying p"
    if "case findPlayer (players s) x of None \<Rightarrow> True | Some p \<Rightarrow> isPlaying p" for x
  proof (cases "findPlayer (players s) x")
    case None
    then have "findPlayer (players ?s') x = None"
      by (simp add: pl find_forEachPlayer_None [OF pidm])
    then show ?thesis by simp
  next
    case (Some p)
    with that have "isPlaying p" by simp
    with Some obtain p' where "findPlayer (players ?s') x = Some p'" "isPlaying p'"
      using find_forEachPlayer_preserves [where f = mark and Q = isPlaying, OF pidm _ Some]
      by (auto simp: pl mark_def)
    then show ?thesis by simp
  qed
  have new: "case findPlayer (players ?s') x of None \<Rightarrow> True | Some p \<Rightarrow> isPlaying p"
    if xin: "x \<in> set ids" for x
  proof -
    from free [OF xin] obtain p where f: "findPlayer (players s) x = Some p" by auto
    obtain p' where "findPlayer (players ?s') x = Some p'" "isPlaying p'"
      using find_forEachPlayer_establishes [where f = mark and Q = isPlaying, OF pidm _ f xin]
      by (auto simp: pl mark_def)
    then show ?thesis by simp
  qed
  have B: "membersBusy ?s'"
    unfolding membersBusy_def cm mp
  proof (intro ballI)
    fix q x
    assume q: "q \<in> set (currentMatches s @ [r])" and x: "x \<in> set (matchPlayers (store s q))"
    show "case findPlayer (players ?s') x of None \<Rightarrow> True | Some p \<Rightarrow> isPlaying p"
    proof (cases "q = r")
      case True
      then show ?thesis using x new by (simp add: ids_def)
    next
      case False
      then have "q \<in> set (currentMatches s)" using q by simp
      then have "case findPlayer (players s) x of None \<Rightarrow> True | Some p \<Rightarrow> isPlaying p"
        using busy x by (auto simp: membersBusy_def)
      then show ?thesis by (rule keep)
    qed
  qed
  have C: "\<not> multiCourt (settings ?s')" using single by (simp add: startOnCourt_def Let_def)
  from A B C show ?thesis by simp
qed

lemma startLoop_inv:
  assumes "playingApart s" and "membersBusy s" and "\<not> multiCourt (settings s)"
  shows "playingApart (fst (startLoop now courts s n)) \<and> membersBusy (fst (startLoop now courts s n))"
  using assms
proof (induction courts arbitrary: s n)
  case Nil
  then show ?case by simp
next
  case (Cons c courts)
  show ?case
  proof (cases "findIndex (canStart s) (matchQueue s)")
    case None
    then show ?thesis using Cons.prems by simp
  next
    case (Some i)
    have "playingApart (startOnCourt now s c i) \<and> membersBusy (startOnCourt now s c i)
          \<and> \<not> multiCourt (settings (startOnCourt now s c i))"
      using Cons.prems Some by (intro startOnCourt_inv)
    then show ?thesis using Cons.IH Some by simp
  qed
qed

section \<open>Claims about the dispatch scheduler\<close>

lemma sessionStaleFlag_started:
  "currentMatches (fst (startNextMatch exampleNow sessionStaleFlag)) = [0, 1]
   \<and> map (\<lambda>r. matchPlayers (store (fst (startNextMatch exampleNow sessionStaleFlag)) r)) [0, 1]
       = [[''a'', ''b''], [''c'', ''a'']]"
  by code_simp

text \<open>
  The session \<open>sessionStaleFlag\<close> shows what the operations of app.js produce from
  \<open>sessionMultiCourt\<close>: the same busy flags, the same playing match, the same queued
  match, multi-court mode off.
\<close>

lemma stale_flag_reached:
  shows "map (\<lambda>p. (pid p, isPlaying p, isResting p)) (players sessionAfterMultiCourt)
           = map (\<lambda>p. (pid p, isPlaying p, isResting p)) (players sessionStaleFlag)"
    and "map (\<lambda>r. matchPlayers (store sessionAfterMultiCourt r)) (currentMatches sessionAfterMultiCourt)
           = map (\<lambda>r. matchPlayers (store sessionStaleFlag r)) (currentMatches sessionStaleFlag)"
    and "map (\<lambda>r. court (store sessionAfterMultiCourt r)) (currentMatches sessionAfterMultiCourt)
           = map (\<lambda>r. court (store sessionStaleFlag r)) (currentMatches sessionStaleFlag)"
    and "map (\<lambda>r. matchPlayers (store sessionAfterMultiCourt r)) (matchQueue sessionAfterMultiCourt)
           = map (\<lambda>r. matchPlayers (store sessionStaleFlag r)) (matchQueue sessionStaleFlag)"
    and "settings sessionAfterMultiCourt = settings sessionStaleFlag"
  by code_simp+

text \<open>
  Where the flag is lost: before \<^verbatim>\<open>completeMatch\<close> every member of a playing match is
  marked busy; \<^verbatim>\<open>completeMatch\<close> clears the flag of every member of the match it
  completes, also of \<open>a\<close>, who is still playing on court 1.
\<close>

lemma completeMatch_releases_playing_member:
  shows "membersBusy sessionBeforeComplete"
    and "\<not> multiCourt (settings sessionBeforeComplete)"
    and "map (\<lambda>r. matchPlayers (store sessionBeforeComplete r)) (currentMatches sessionBeforeComplete)
           = [[''a'', ''b''], [''a'', ''c'']]"
    and "\<not> membersBusy (fst (completeMatch exampleNow ''m0'' sessionBeforeComplete))"
  by code_simp+

text \<open>
  As long as the flags are right, \<^verbatim>\<open>startNextMatch\<close> does keep the playing matches apart:
  with multi-court mode off and every member of a playing match marked busy, a player of
  a playing match is in no match that passes the eligibility test.
\<close>

lemma startNext_apart_while_flags_right:
  assumes "playingApart s" and "\<not> multiCourt (settings s)" and "membersBusy s"
  shows "playingApart (fst (startNextMatch now s))"
proof -
  have "playingApart (fst (startLoop now (getAvailableCourts s) s 0))"
    using assms startLoop_inv by blast
  then show ?thesis
    using assms(1)
    by (cases "startLoop now (getAvailableCourts s) s 0") (simp add: startNextMatch_def Let_def)
qed

text \<open>
  C4. In the session \<open>sessionStaleFlag\<close> multi-court mode is off and no player id is in
  two playing matches; player \<open>a\<close> is a member of the match playing on court 1 and is not
  marked busy. \<^verbatim>\<open>startNextMatch\<close> tests the flag only: it starts the queued match of \<open>c\<close>
  and \<open>a\<close> on court 2, and afterwards \<open>a\<close> is in the teams of two playing matches.
\<close>

theorem startNext_shares_player_when_flag_stale:
  "playingApart sessionStaleFlag
   \<and> \<not> multiCourt (settings sessionStaleFlag)
   \<and> \<not> playingApart (fst (startNextMatch exampleNow sessionStaleFlag))"
proof -
  have "playingApart sessionStaleFlag"
    by (simp add: playingApart_def sessionStaleFlag_def)
  moreover have "\<not> multiCourt (settings sessionStaleFlag)"
    by (simp add: sessionStaleFlag_def twoCourtSingles_def)
  moreover have "\<not> playingApart (fst (startNextMatch exampleNow sessionStaleFlag))"
    using sessionStaleFlag_started by (simp add: playingApart_def)
  ultimately show ?thesis by simp
qed

text \<open>
  C5. \<^verbatim>\<open>startNextMatch\<close> leaves the whole session as it is and shows the message of the
  case, when the queue is empty (``no match in the queue''), when the queue is not empty
  and every court from 1 to the court count is taken by a playing match (``courts
  full''), and when a court is free but no queued match passes the eligibility test
  (``cannot start'').
\<close>

theorem startNext_without_capacity_changes_nothing:
  "(matchQueue s = [] \<longrightarrow> startNextMatch now s = (s, Some (QueueEmpty, Info)))
   \<and> (matchQueue s \<noteq> [] \<and> allCourtsOccupied s
        \<longrightarrow> startNextMatch now s = (s, Some (CourtsFull, Error)))
   \<and> (matchQueue s \<noteq> [] \<and> \<not> allCourtsOccupied s \<and> (\<forall>r \<in> set (matchQueue s). \<not> canStart s r)
        \<longrightarrow> startNextMatch now s = (s, Some (CannotStart, Error)))"
proof (intro conjI impI)
  assume "matchQueue s = []"
  then show "startNextMatch now s = (s, Some (QueueEmpty, Info))"
    by (simp add: startNextMatch_def)
next
  assume "matchQueue s \<noteq> [] \<and> allCourtsOccupied s"
  then show "startNextMatch now s = (s, Some (CourtsFull, Error))"
    by (simp add: startNextMatch_def getAvailableCourts_empty)
next
  assume a: "matchQueue s \<noteq> [] \<and> \<not> allCourtsOccupied s
             \<and> (\<forall>r \<in> set (matchQueue s). \<not> canStart s r)"
  then have "startLoop now (getAvailableCourts s) s 0 = (s, 0)" by (simp add: startLoop_blocked)
  then show "startNextMatch now s = (s, Some (CannotStart, Error))"
    using a by (simp add: startNextMatch_def getAvailableCourts_empty Let_def)
qed

theorem startNext_without_capacity_changes_nothing_witness:
  "matchQueue sessionEmptyQueue = []
   \<and> startNextMatch exampleNow sessionEmptyQueue = (sessionEmptyQueue, Some (QueueEmpty, Info))
   \<and> matchQueue sessionCourtsFull \<noteq> [] \<and> allCourtsOccupied sessionCourtsFull
   \<and> startNextMatch exampleNow sessionCourtsFull = (sessionCourtsFull, Some (CourtsFull, Error))
   \<and> matchQueue sessionBlocked \<noteq> [] \<and> \<not> allCourtsOccupied sessionBlocked
   \<and> \<not> canStart sessionBlocked 1 \<and> set (matchQueue sessionBlocked) = {1}
   \<and> startNextMatch exampleNow sessionBlocked = (sessionBlocked, Some (CannotStart, Error))"
proof -
  have e: "matchQueue sessionEmptyQueue = []"
    by (simp add: sessionEmptyQueue_def)
  have f: "matchQueue sessionCourtsFull \<noteq> [] \<and> allCourtsOccupied sessionCourtsFull"
    by code_simp
  have q: "matchQueue sessionBlocked \<noteq> [] \<and> set (matchQueue sessionBlocked) = {1}"
    by (simp add: sessionBlocked_def sessionOneFree_def)
  have o: "\<not> allCourtsOccupied sessionBlocked"
    by code_simp
  have n: "\<not> canStart sessionBlocked 1"
    by code_simp
  show ?thesis
    using startNext_without_capacity_changes_nothing [of sessionEmptyQueue exampleNow]
      startNext_without_capacity_changes_nothing [of sessionCourtsFull exampleNow]
      startNext_without_capacity_changes_nothing [of sessionBlocked exampleNow]
      e f q o n
    by simp
qed

section \<open>Match lifecycle\<close>

lemma pid_forEachPlayer:
  assumes "\<And>i p. pid (f i p) = pid p"
  shows "map pid (forEachPlayer f ids ps) = map pid ps"
proof (induction ids arbitrary: ps)
  case Nil
  then show ?case by simp
next
  case (Cons i ids)
  then show ?case by (simp add: pid_updatePlayer assms)
qed

lemma release_visited:
  assumes "x \<in> set ids"
  shows "idle (forEachPlayer release ids ps) x"
proof (cases "findPlayer ps x")
  case None
  then have "findPlayer (forEachPlayer release ids ps) x = None"
    by (simp add: find_forEachPlayer_None release_def)
  then show ?thesis by (simp add: idle_def)
next
  case (Some p)
  have "\<exists>p'. findPlayer (forEachPlayer release ids ps) x = Some p' \<and> \<not> isPlaying p'"
    by (rule find_forEachPlayer_establishes [where Q = "\<lambda>p. \<not> isPlaying p", OF _ _ Some assms])
       (simp_all add: release_def)
  then show ?thesis by (auto simp: idle_def)
qed

lemma release_keeps:
  assumes "idle ps x"
  shows "idle (forEachPlayer release ids ps) x"
proof (cases "findPlayer ps x")
  case None
  then have "findPlayer (forEachPlayer release ids ps) x = None"
    by (simp add: find_forEachPlayer_None release_def)
  then show ?thesis by (simp add: idle_def)
next
  case (Some p)
  then have "\<not> isPlaying p" using assms by (simp add: idle_def)
  then have "\<exists>p'. findPlayer (forEachPlayer release ids ps) x = Some p' \<and> \<not> isPlaying p'"
    by (intro find_forEachPlayer_preserves [where Q = "\<lambda>p. \<not> isPlaying p", OF _ _ Some])
       (simp_all add: release_def)
  then show ?thesis by (auto simp: idle_def)
qed

lemma completeOne_facts:
  "status (store (completeOne now s r) r) = Completed"
  "completedAt (store (completeOne now s r) r) = Some now"
  "matchPlayers (store (completeOne now s r) q) = matchPlayers (store s q)"
  "players (completeOne now s r) = forEachPlayer release (matchPlayers (store s r)) (players s)"
  "currentMatches (completeOne now s r) = currentMatches s"
  by (simp_all add: completeOne_def Let_def matchPlayers_def release_def [abs_def])

lemma completeOne_done:
  assumes "status (store s q) = Completed \<and> completedAt (store s q) = Some now"
  shows "status (store (completeOne now s r) q) = Completed
         \<and> completedAt (store (completeOne now s r) q) = Some now"
  using assms by (simp add: completeOne_def Let_def)

lemma completeOne_roster: "map pid (players (completeOne now s r)) = map pid (players s)"
  by (simp add: completeOne_facts pid_forEachPlayer release_def)

lemma completeOne_member:
  assumes "x \<in> set (matchPlayers (store s r))"
  shows "idle (players (completeOne now s r)) x"
  unfolding completeOne_facts using assms by (rule release_visited)

lemma completeOne_idle:
  assumes "idle (players s) x"
  shows "idle (players (completeOne now s r)) x"
  unfolding completeOne_facts using assms by (rule release_keeps)

text \<open>
  The fold of \<^verbatim>\<open>completeCurrentMatches\<close>, from a state \<open>t\<close> in which the matches
  \<open>qs\<close> are completed already and their members released.
\<close>

lemma complete_fold:
  assumes "\<forall>q. matchPlayers (store t q) = matchPlayers (store s q)"
    and "\<forall>q \<in> set qs. status (store t q) = Completed \<and> completedAt (store t q) = Some now"
    and "\<forall>q \<in> set qs. \<forall>x \<in> set (matchPlayers (store s q)). idle (players t) x"
  shows "(\<forall>q \<in> set qs \<union> set rs.
           status (store (foldl (completeOne now) t rs) q) = Completed
           \<and> completedAt (store (foldl (completeOne now) t rs) q) = Some now
           \<and> (\<forall>x \<in> set (matchPlayers (store s q)).
                 idle (players (foldl (completeOne now) t rs)) x))
         \<and> map pid (players (foldl (completeOne now) t rs)) = map pid (players t)
         \<and> currentMatches (foldl (completeOne now) t rs) = currentMatches t"
  using assms
proof (induction rs arbitrary: t qs)
  case Nil
  then show ?case by simp
next
  case (Cons r rs)
  let ?t = "completeOne now t r"
  have mp: "\<forall>q. matchPlayers (store ?t q) = matchPlayers (store s q)"
    using Cons.prems(1) by (simp add: completeOne_facts)
  have st: "\<forall>q \<in> set (r # qs). status (store ?t q) = Completed \<and> completedAt (store ?t q) = Some now"
  proof
    fix q
    assume "q \<in> set (r # qs)"
    then consider "q = r" | "q \<in> set qs" by auto
    then show "status (store ?t q) = Completed \<and> completedAt (store ?t q) = Some now"
    proof cases
      case 1
      then show ?thesis by (simp add: completeOne_facts)
    next
      case 2
      then show ?thesis using Cons.prems(2) by (intro completeOne_done) blast
    qed
  qed
  have rel: "\<forall>q \<in> set (r # qs). \<forall>x \<in> set (matchPlayers (store s q)). idle (players ?t) x"
  proof (intro ballI)
    fix q x
    assume q: "q \<in> set (r # qs)" and x: "x \<in> set (matchPlayers (store s q))"
    show "idle (players ?t) x"
    proof (cases "q = r")
      case True
      then have "x \<in> set (matchPlayers (store t r))" using x Cons.prems(1) by simp
      then show ?thesis by (rule completeOne_member)
    next
      case False
      then have "q \<in> set qs" using q by simp
      then have "idle (players t) x" using Cons.prems(3) x by blast
      then show ?thesis by (rule completeOne_idle)
    qed
  qed
  have "(\<forall>q \<in> set (r # qs) \<union> set rs.
           status (store (foldl (completeOne now) ?t rs) q) = Completed
           \<and> completedAt (store (foldl (completeOne now) ?t rs) q) = Some now
           \<and> (\<forall>x \<in> set (matchPlayers (store s q)).
                 idle (players (foldl (completeOne now) ?t rs)) x))
         \<and> map pid (players (foldl (completeOne now) ?t rs)) = map pid (players ?t)
         \<and> currentMatches (foldl (completeOne now) ?t rs) = currentMatches ?t"
    using mp st rel by (rule Cons.IH)
  then show ?case by (simp add: completeOne_roster completeOne_facts(5))
qed

text \<open>The score: the winner by the sets won, and what one player's counters become.\<close>

lemma deriveWinner_counts:
  "deriveWinner sc =
     (if team1SetWins sc > team2SetWins sc then Team1
      else if team2SetWins sc > team1SetWins sc then Team2 else Draw)"
  by (simp add: deriveWinner_def countSet_def team1SetWins_def team2SetWins_def setScores_def
        Let_def)

lemma scorePlayer_pid: "pid (scorePlayer m w x p) = pid p"
  by (simp add: scorePlayer_def Let_def)

lemma scorePlayer_counts:
  assumes "x \<in> set (matchPlayers m)" and "distinct (matchPlayers m)"
  shows "counter (wins (scorePlayer m w x p))
           = counter (wins p) + (if onWinningTeam w m x then 1 else 0)"
    and "counter (losses (scorePlayer m w x p))
           = counter (losses p) + (if onLosingTeam w m x then 1 else 0)"
    and "\<not> isPlaying (scorePlayer m w x p)"
proof -
  have disj: "\<not> (x \<in> set (team1 m) \<and> x \<in> set (team2 m))"
    using assms(2) by (auto simp: matchPlayers_def)
  have mem: "x \<in> set (team1 m) \<or> x \<in> set (team2 m)"
    using assms(1) by (simp add: matchPlayers_def)
  show "counter (wins (scorePlayer m w x p))
           = counter (wins p) + (if onWinningTeam w m x then 1 else 0)"
    by (cases "wins p"; cases "losses p"; cases w)
       (simp_all add: scorePlayer_def Let_def counter_def onWinningTeam_def)
  show "counter (losses (scorePlayer m w x p))
           = counter (losses p) + (if onLosingTeam w m x then 1 else 0)"
    using disj mem
    by (cases "wins p"; cases "losses p"; cases w)
       (auto simp: scorePlayer_def Let_def counter_def onLosingTeam_def)
  show "\<not> isPlaying (scorePlayer m w x p)"
    by (simp add: scorePlayer_def Let_def)
qed

lemma scorePlayer_scored:
  "scorePlayer (m\<lparr> status := a, completedAt := b, mscores := c, mwinner := d \<rparr>) = scorePlayer m"
  by (simp add: fun_eq_iff scorePlayer_def cong: if_cong)

lemma matchPlayers_scored:
  "matchPlayers (m\<lparr> status := a, completedAt := b, mscores := c, mwinner := d \<rparr>) = matchPlayers m"
  by (simp add: matchPlayers_def)

lemma saveScore_found:
  assumes "findIndex (\<lambda>r. mid (store s r) = matchId) (currentMatches s) = Some i"
  shows "store (fst (saveScore now matchId sc s))
           = (store s)(currentMatches s ! i :=
                (store s (currentMatches s ! i))\<lparr> status := Completed, completedAt := Some now,
                    mscores := Some sc, mwinner := Some (deriveWinner sc) \<rparr>)"
    and "players (fst (saveScore now matchId sc s))
           = forEachPlayer
               (scorePlayer (store s (currentMatches s ! i)) (deriveWinner sc))
               (matchPlayers (store s (currentMatches s ! i))) (players s)"
    and "currentMatches (fst (saveScore now matchId sc s)) = spliceOut i (currentMatches s)"
    and "snd (saveScore now matchId sc s) = Some (ScoreSaved, Success)"
  by (simp_all add: saveScore_def assms Let_def matchPlayers_scored scorePlayer_scored
        split: option.splits)

section \<open>Claims about the match lifecycle\<close>

lemma sessionDoubles_completed:
  shows "findIndex (\<lambda>r. mid (store sessionDoubles r) = ''m1'') (currentMatches sessionDoubles) = Some 0"
    and "currentMatches sessionDoubles ! 0 = 0"
    and "currentMatches sessionDoubles \<noteq> []"
    and "set (currentMatches sessionDoubles) = {0}"
    and "map (\<lambda>x. map_option isPlaying
                  (findPlayer (players (fst (completeMatch exampleNow ''m1'' sessionDoubles))) x))
           [''a'', ''b'', ''c'', ''gone''] = [Some False, Some False, Some False, None]"
    and "map (\<lambda>x. map_option isPlaying
                  (findPlayer (players (fst (completeCurrentMatches exampleNow sessionDoubles))) x))
           [''a'', ''b'', ''c'', ''gone''] = [Some False, Some False, Some False, None]"
  by code_simp+

text \<open>
  C9. Completing one active match (\<^verbatim>\<open>completeMatch\<close> with the id of a match of
  \<^verbatim>\<open>state.currentMatches\<close>) and completing all active matches
  (\<^verbatim>\<open>completeCurrentMatches\<close> with a match playing): the match objects get the status
  completed and the completion time; every member that the roster knows is not busy
  afterwards; a member id that the roster does not know changes nothing, the roster keeps
  its players and the operation ends with its success message; the completed matches
  leave \<^verbatim>\<open>state.currentMatches\<close>.
\<close>

theorem completion_releases_members:
  "(findIndex (\<lambda>r. mid (store s r) = matchId) (currentMatches s) = Some i \<longrightarrow>
      status (store (fst (completeMatch now matchId s)) (currentMatches s ! i)) = Completed
      \<and> completedAt (store (fst (completeMatch now matchId s)) (currentMatches s ! i)) = Some now
      \<and> (\<forall>x \<in> set (matchPlayers (store s (currentMatches s ! i))).
            idle (players (fst (completeMatch now matchId s))) x)
      \<and> map pid (players (fst (completeMatch now matchId s))) = map pid (players s)
      \<and> currentMatches (fst (completeMatch now matchId s)) = spliceOut i (currentMatches s)
      \<and> snd (completeMatch now matchId s) = Some (MatchFinished, Success))
   \<and> (currentMatches s \<noteq> [] \<longrightarrow>
      (\<forall>r \<in> set (currentMatches s).
          status (store (fst (completeCurrentMatches now s)) r) = Completed
          \<and> completedAt (store (fst (completeCurrentMatches now s)) r) = Some now
          \<and> (\<forall>x \<in> set (matchPlayers (store s r)).
                idle (players (fst (completeCurrentMatches now s))) x))
      \<and> map pid (players (fst (completeCurrentMatches now s))) = map pid (players s)
      \<and> currentMatches (fst (completeCurrentMatches now s)) = []
      \<and> snd (completeCurrentMatches now s) = Some (MatchFinished, Success))"
proof (intro conjI impI)
  assume idx: "findIndex (\<lambda>r. mid (store s r) = matchId) (currentMatches s) = Some i"
  let ?r = "currentMatches s ! i"
  let ?s1 = "s\<lparr> currentMatches := spliceOut i (currentMatches s) \<rparr>"
  have cm: "completeMatch now matchId s = (completeOne now ?s1 ?r, Some (MatchFinished, Success))"
    by (simp add: completeMatch_def idx Let_def)
  show "status (store (fst (completeMatch now matchId s)) ?r) = Completed"
    by (simp add: cm completeOne_facts)
  show "completedAt (store (fst (completeMatch now matchId s)) ?r) = Some now"
    by (simp add: cm completeOne_facts)
  show "\<forall>x \<in> set (matchPlayers (store s ?r)). idle (players (fst (completeMatch now matchId s))) x"
    using completeOne_member [of _ ?s1 ?r now] by (simp add: cm)
  show "map pid (players (fst (completeMatch now matchId s))) = map pid (players s)"
    by (simp add: cm completeOne_roster)
  show "currentMatches (fst (completeMatch now matchId s)) = spliceOut i (currentMatches s)"
    by (simp add: cm completeOne_facts)
  show "snd (completeMatch now matchId s) = Some (MatchFinished, Success)"
    by (simp add: cm)
next
  assume ne: "currentMatches s \<noteq> []"
  let ?t = "foldl (completeOne now) s (currentMatches s)"
  have cc: "completeCurrentMatches now s = (?t\<lparr> currentMatches := [] \<rparr>, Some (MatchFinished, Success))"
    using ne by (simp add: completeCurrentMatches_def)
  have fold: "(\<forall>q \<in> set [] \<union> set (currentMatches s).
           status (store ?t q) = Completed \<and> completedAt (store ?t q) = Some now
           \<and> (\<forall>x \<in> set (matchPlayers (store s q)). idle (players ?t) x))
         \<and> map pid (players ?t) = map pid (players s)
         \<and> currentMatches ?t = currentMatches s"
    by (rule complete_fold) simp_all
  show "\<forall>r \<in> set (currentMatches s).
          status (store (fst (completeCurrentMatches now s)) r) = Completed
          \<and> completedAt (store (fst (completeCurrentMatches now s)) r) = Some now
          \<and> (\<forall>x \<in> set (matchPlayers (store s r)).
                idle (players (fst (completeCurrentMatches now s))) x)"
    using fold by (simp add: cc)
  show "map pid (players (fst (completeCurrentMatches now s))) = map pid (players s)"
    using fold by (simp add: cc)
  show "currentMatches (fst (completeCurrentMatches now s)) = []"
    by (simp add: cc)
  show "snd (completeCurrentMatches now s) = Some (MatchFinished, Success)"
    by (simp add: cc)
qed

theorem completion_releases_members_witness:
  "findIndex (\<lambda>r. mid (store sessionDoubles r) = ''m1'') (currentMatches sessionDoubles) = Some 0
   \<and> status (store (fst (completeMatch exampleNow ''m1'' sessionDoubles)) 0) = Completed
   \<and> completedAt (store (fst (completeMatch exampleNow ''m1'' sessionDoubles)) 0) = Some exampleNow
   \<and> map (\<lambda>x. map_option isPlaying
                  (findPlayer (players (fst (completeMatch exampleNow ''m1'' sessionDoubles))) x))
         [''a'', ''b'', ''c'', ''gone''] = [Some False, Some False, Some False, None]
   \<and> snd (completeMatch exampleNow ''m1'' sessionDoubles) = Some (MatchFinished, Success)
   \<and> currentMatches sessionDoubles \<noteq> []
   \<and> status (store (fst (completeCurrentMatches exampleNow sessionDoubles)) 0) = Completed
   \<and> completedAt (store (fst (completeCurrentMatches exampleNow sessionDoubles)) 0)
       = Some exampleNow
   \<and> map (\<lambda>x. map_option isPlaying
                  (findPlayer (players (fst (completeCurrentMatches exampleNow sessionDoubles))) x))
         [''a'', ''b'', ''c'', ''gone''] = [Some False, Some False, Some False, None]
   \<and> currentMatches (fst (completeCurrentMatches exampleNow sessionDoubles)) = []"
proof -
  note ev = sessionDoubles_completed
  note th = completion_releases_members [of sessionDoubles "''m1''" 0 exampleNow]
  from th ev(1) have one:
    "status (store (fst (completeMatch exampleNow ''m1'' sessionDoubles))
               (currentMatches sessionDoubles ! 0)) = Completed
     \<and> completedAt (store (fst (completeMatch exampleNow ''m1'' sessionDoubles))
               (currentMatches sessionDoubles ! 0)) = Some exampleNow
     \<and> snd (completeMatch exampleNow ''m1'' sessionDoubles) = Some (MatchFinished, Success)"
    by blast
  from th ev(3) have "\<forall>r \<in> set (currentMatches sessionDoubles).
          status (store (fst (completeCurrentMatches exampleNow sessionDoubles)) r) = Completed
          \<and> completedAt (store (fst (completeCurrentMatches exampleNow sessionDoubles)) r)
              = Some exampleNow"
    and emp: "currentMatches (fst (completeCurrentMatches exampleNow sessionDoubles)) = []"
    by blast+
  then have all: "status (store (fst (completeCurrentMatches exampleNow sessionDoubles)) 0) = Completed
          \<and> completedAt (store (fst (completeCurrentMatches exampleNow sessionDoubles)) 0)
              = Some exampleNow"
    by (simp only: ev(4)) blast
  from one have one': "status (store (fst (completeMatch exampleNow ''m1'' sessionDoubles)) 0) = Completed
     \<and> completedAt (store (fst (completeMatch exampleNow ''m1'' sessionDoubles)) 0) = Some exampleNow
     \<and> snd (completeMatch exampleNow ''m1'' sessionDoubles) = Some (MatchFinished, Success)"
    by (simp only: ev(2))
  from ev(1,3,5,6) one' all emp show ?thesis by blast
qed

lemma sessionDoubles_scored:
  shows "findIndex (\<lambda>r. mid (store sessionDoubles r) = ''m1'') (currentMatches sessionDoubles) = Some 0"
    and "currentMatches sessionDoubles ! 0 = 0"
    and "distinct (matchPlayers (store sessionDoubles 0))"
    and "deriveWinner exampleScores = Team1"
    and "team1SetWins exampleScores = 2" and "team2SetWins exampleScores = 1"
    and "map (\<lambda>x. map_option (\<lambda>p. (counter (wins p), counter (losses p)))
                  (findPlayer (players (fst (saveScore exampleNow ''m1'' exampleScores sessionDoubles))) x))
           [''a'', ''b'', ''c'', ''gone''] = [Some (1, 0), Some (1, 0), Some (0, 1), None]"
  by code_simp+

text \<open>
  C8. \<^verbatim>\<open>saveScore\<close> on an active match whose teams name no player twice, with any six
  integer scores. The winner recorded on the match is team 1 exactly when team 1 has won
  more sets than team 2, team 2 exactly when it has won fewer, and a draw exactly when both
  have won as many, a set being won by the team with the strictly greater score in it.
  A member that the roster knows gets one more win if it is on the winning team and one
  more loss if it is on the losing team; on a draw there is neither, so both counters keep
  their values. A member that the roster does not know is skipped.
\<close>

theorem score_decides_winner_and_counters:
  assumes "findIndex (\<lambda>r. mid (store s r) = matchId) (currentMatches s) = Some i"
    and "distinct (matchPlayers (store s (currentMatches s ! i)))"
  shows "mwinner (store (fst (saveScore now matchId sc s)) (currentMatches s ! i))
           = Some (deriveWinner sc)
         \<and> (deriveWinner sc = Team1 \<longleftrightarrow> team1SetWins sc > team2SetWins sc)
         \<and> (deriveWinner sc = Team2 \<longleftrightarrow> team1SetWins sc < team2SetWins sc)
         \<and> (deriveWinner sc = Draw \<longleftrightarrow> team1SetWins sc = team2SetWins sc)
         \<and> (\<forall>x \<in> set (matchPlayers (store s (currentMatches s ! i))).
               case findPlayer (players s) x of
                 None \<Rightarrow> findPlayer (players (fst (saveScore now matchId sc s))) x = None
               | Some p \<Rightarrow>
                   (\<exists>p'. findPlayer (players (fst (saveScore now matchId sc s))) x = Some p'
                      \<and> counter (wins p') = counter (wins p)
                           + (if onWinningTeam (deriveWinner sc) (store s (currentMatches s ! i)) x
                              then 1 else 0)
                      \<and> counter (losses p') = counter (losses p)
                           + (if onLosingTeam (deriveWinner sc) (store s (currentMatches s ! i)) x
                              then 1 else 0)))"
proof -
  let ?m = "store s (currentMatches s ! i)"
  let ?w = "deriveWinner sc"
  let ?s' = "fst (saveScore now matchId sc s)"
  note sv = saveScore_found [OF assms(1), of now sc]
  have w: "mwinner (store ?s' (currentMatches s ! i)) = Some ?w" by (simp add: sv(1))
  have iff: "(?w = Team1 \<longleftrightarrow> team1SetWins sc > team2SetWins sc)
             \<and> (?w = Team2 \<longleftrightarrow> team1SetWins sc < team2SetWins sc)
             \<and> (?w = Draw \<longleftrightarrow> team1SetWins sc = team2SetWins sc)"
    by (auto simp: deriveWinner_counts)
  have pl: "\<forall>x \<in> set (matchPlayers ?m).
              case findPlayer (players s) x of
                None \<Rightarrow> findPlayer (players ?s') x = None
              | Some p \<Rightarrow>
                  (\<exists>p'. findPlayer (players ?s') x = Some p'
                     \<and> counter (wins p') = counter (wins p) + (if onWinningTeam ?w ?m x then 1 else 0)
                     \<and> counter (losses p') = counter (losses p) + (if onLosingTeam ?w ?m x then 1 else 0))"
  proof
    fix x
    assume x: "x \<in> set (matchPlayers ?m)"
    have f: "findPlayer (players ?s') x = map_option (scorePlayer ?m ?w x) (findPlayer (players s) x)"
      unfolding sv(2) using assms(2) x
      by (intro find_forEachPlayer_distinct) (simp_all add: scorePlayer_pid)
    show "case findPlayer (players s) x of
            None \<Rightarrow> findPlayer (players ?s') x = None
          | Some p \<Rightarrow>
              (\<exists>p'. findPlayer (players ?s') x = Some p'
                 \<and> counter (wins p') = counter (wins p) + (if onWinningTeam ?w ?m x then 1 else 0)
                 \<and> counter (losses p') = counter (losses p) + (if onLosingTeam ?w ?m x then 1 else 0))"
    proof (cases "findPlayer (players s) x")
      case None
      then show ?thesis by (simp add: f)
    next
      case (Some p)
      show ?thesis
        using scorePlayer_counts(1,2) [OF x assms(2), of ?w p] by (simp add: f Some)
    qed
  qed
  from w iff pl show ?thesis by blast
qed

theorem score_decides_winner_and_counters_witness:
  "findIndex (\<lambda>r. mid (store sessionDoubles r) = ''m1'') (currentMatches sessionDoubles) = Some 0
   \<and> distinct (matchPlayers (store sessionDoubles 0))
   \<and> mwinner (store (fst (saveScore exampleNow ''m1'' exampleScores sessionDoubles)) 0) = Some Team1
   \<and> team1SetWins exampleScores = 2 \<and> team2SetWins exampleScores = 1
   \<and> map (\<lambda>x. map_option (\<lambda>p. (counter (wins p), counter (losses p)))
                  (findPlayer (players (fst (saveScore exampleNow ''m1'' exampleScores sessionDoubles))) x))
         [''a'', ''b'', ''c'', ''gone''] = [Some (1, 0), Some (1, 0), Some (0, 1), None]"
proof -
  note ev = sessionDoubles_scored
  have d: "distinct (matchPlayers (store sessionDoubles (currentMatches sessionDoubles ! 0)))"
    by (simp only: ev(2,3))
  have "mwinner (store (fst (saveScore exampleNow ''m1'' exampleScores sessionDoubles))
                   (currentMatches sessionDoubles ! 0)) = Some (deriveWinner exampleScores)"
    using score_decides_winner_and_counters [OF ev(1) d, of exampleNow exampleScores] by blast
  then have "mwinner (store (fst (saveScore exampleNow ''m1'' exampleScores sessionDoubles)) 0)
             = Some Team1"
    by (simp only: ev(2,4))
  with ev(1,3,5,6,7) show ?thesis by blast
qed

section \<open>Claim about the round generator\<close>

text \<open>
  C2. The test of \<^verbatim>\<open>generateRound\<close> counts the players that are not busy, resting or
  not; only the override of \<^verbatim>\<open>generateMatches\<close> leaves the resting players out. In the
  session \<open>sessionOneResting\<close>, doubles, three players are eligible and a fourth is
  resting: fewer than the four a match needs. \<^verbatim>\<open>generateRound\<close> does not fail: it shows
  the success message for round 1 with 0 matches, the round counter goes from 0 to 1, and
  a round without matches is pushed to the history.
\<close>

theorem generateRound_counts_resting_players:
  "length (filter eligible (players sessionOneResting)) = 3
   \<and> playersPerMatch (matchType (settings sessionOneResting)) = 4
   \<and> currentRound sessionOneResting = 0
   \<and> rounds sessionOneResting = []
   \<and> snd (generateRound exampleGen exampleNow exampleRnd sessionOneResting)
       = Some (RoundCreated 1 0, Success)
   \<and> currentRound (fst (generateRound exampleGen exampleNow exampleRnd sessionOneResting)) = 1
   \<and> map rmatches (rounds (fst (generateRound exampleGen exampleNow exampleRnd sessionOneResting)))
       = [[]]"
  by code_simp

section \<open>Claim about editing a player\<close>

lemma updatePlayer_other:
  assumes "p \<in> set ps" and "pid p \<noteq> i"
  shows "p \<in> set (updatePlayer f i ps)"
  using assms by (induction ps) auto

lemma findPlayer_pid: "findPlayer ps i = Some p \<Longrightarrow> pid p = i \<and> p \<in> set ps"
  unfolding findPlayer_def by (induction ps) (auto split: if_splits)

lemma sessionRoster_edited:
  shows "findPlayer (players sessionRoster) ''p1''
           = Some ((examplePlayer ''p1'' Pro False False)\<lparr> name := ''Ann'' \<rparr>)"
    and "(examplePlayer ''p2'' Beginner False False)\<lparr> name := ''Bob'' \<rparr> \<in> set (players sessionRoster)"
    and "pid ((examplePlayer ''p2'' Beginner False False)\<lparr> name := ''Bob'' \<rparr>) \<noteq> ''p1''"
    and "trim '' Bob '' = name ((examplePlayer ''p2'' Beginner False False)\<lparr> name := ''Bob'' \<rparr>)"
    and "name ((examplePlayer ''p2'' Beginner False False)\<lparr> name := ''Bob'' \<rparr>) \<noteq> []"
    and "map (\<lambda>p. (pid p, name p)) (players (fst (saveEditPlayer ''p1'' '' Bob '' Pro sessionRoster)))
           = [(''p1'', ''Bob''), (''p2'', ''Bob'')]"
  by code_simp+

text \<open>
  C10. \<^verbatim>\<open>saveEditPlayer\<close> does not look at the other names. Let the roster hold the
  player edited, found by its id, and another player with a different id and a name that
  is not empty. When the name entered is, once trimmed, exactly the name of the other
  player, the edit succeeds, and afterwards the roster holds two players with different
  ids and the same name, hence the same name in lower case. The same input is refused by
  \<^verbatim>\<open>addPlayer\<close> (``name taken'', session unchanged) and adds nobody in
  \<^verbatim>\<open>addBulkPlayers\<close>.
\<close>

theorem edit_allows_duplicate_name:
  assumes "findPlayer (players s) a = Some pa" and "pb \<in> set (players s)" and "pid pb \<noteq> a"
    and "trim nameInput = name pb" and "name pb \<noteq> []"
  shows "snd (saveEditPlayer a nameInput lvl s) = Some (PlayerEdited, Success)
         \<and> (\<exists>pa'. findPlayer (players (fst (saveEditPlayer a nameInput lvl s))) a = Some pa'
                  \<and> pa' \<in> set (players (fst (saveEditPlayer a nameInput lvl s)))
                  \<and> pb \<in> set (players (fst (saveEditPlayer a nameInput lvl s)))
                  \<and> pid pa' \<noteq> pid pb
                  \<and> name pa' = name pb
                  \<and> toLowerCase (name pa') = toLowerCase (name pb))
         \<and> addPlayer newId now nameInput lvl s = (s, Some (NameTaken, Error))
         \<and> players (fst (addBulkPlayers gen now [nameInput] lvl s)) = players s"
proof -
  let ?f = "\<lambda>p. p\<lparr> name := trim nameInput, level := lvl \<rparr>"
  let ?s' = "fst (saveEditPlayer a nameInput lvl s)"
  have ed: "saveEditPlayer a nameInput lvl s
            = (s\<lparr> players := updatePlayer ?f a (players s) \<rparr>, Some (PlayerEdited, Success))"
    using assms(1,4,5) by (simp add: saveEditPlayer_def)
  have f: "findPlayer (players ?s') a = Some (?f pa)"
    using assms(1) by (simp add: ed find_updatePlayer)
  have "pb \<in> set (players ?s')"
    using assms(2,3) by (simp add: ed updatePlayer_other)
  moreover have "?f pa \<in> set (players ?s')" using findPlayer_pid [OF f] by simp
  moreover have "pid (?f pa) \<noteq> pid pb" using findPlayer_pid [OF assms(1)] assms(3) by auto
  moreover have "name (?f pa) = name pb" using assms(4) by simp
  ultimately have dup: "\<exists>pa'. findPlayer (players ?s') a = Some pa'
                  \<and> pa' \<in> set (players ?s') \<and> pb \<in> set (players ?s')
                  \<and> pid pa' \<noteq> pid pb \<and> name pa' = name pb
                  \<and> toLowerCase (name pa') = toLowerCase (name pb)"
    using f by auto
  have taken: "nameTaken (players s) (trim nameInput)"
    using assms(2,4) by (auto simp: nameTaken_def list_ex_iff)
  have add: "addPlayer newId now nameInput lvl s = (s, Some (NameTaken, Error))"
    using taken assms(4,5) by (simp add: addPlayer_def)
  have bulk: "players (fst (addBulkPlayers gen now [nameInput] lvl s)) = players s"
    using taken assms(4,5) by (simp add: addBulkPlayers_def)
  from ed dup add bulk show ?thesis by simp
qed

theorem edit_allows_duplicate_name_witness:
  "findPlayer (players sessionRoster) ''p1''
     = Some ((examplePlayer ''p1'' Pro False False)\<lparr> name := ''Ann'' \<rparr>)
   \<and> trim '' Bob '' = ''Bob''
   \<and> snd (saveEditPlayer ''p1'' '' Bob '' Pro sessionRoster) = Some (PlayerEdited, Success)
   \<and> map (\<lambda>p. (pid p, name p)) (players (fst (saveEditPlayer ''p1'' '' Bob '' Pro sessionRoster)))
       = [(''p1'', ''Bob''), (''p2'', ''Bob'')]
   \<and> addPlayer ''p3'' exampleNow '' Bob '' Pro sessionRoster = (sessionRoster, Some (NameTaken, Error))"
proof -
  note ev = sessionRoster_edited
  have t: "trim '' Bob '' = ''Bob''" using ev(4) by simp
  have "snd (saveEditPlayer ''p1'' '' Bob '' Pro sessionRoster) = Some (PlayerEdited, Success)
        \<and> addPlayer ''p3'' exampleNow '' Bob '' Pro sessionRoster
            = (sessionRoster, Some (NameTaken, Error))"
    using edit_allows_duplicate_name [OF ev(1,2,3,4,5), of Pro "''p3''" exampleNow exampleGen]
    by blast
  with ev(1,6) t show ?thesis by blast
qed

section \<open>Claim about the import\<close>

text \<open>
  The test \<^verbatim>\<open>!parsed.players || !Array.isArray(parsed.players)\<close>, with the
  \<^verbatim>\<open>TypeError\<close> of \<^verbatim>\<open>null.players\<close>, lets exactly the objects with a \<^verbatim>\<open>players\<close>
  array pass; \<^verbatim>\<open>Object.assign\<close> overrides the target with the properties of the source.
\<close>

lemma validation_iff:
  "(case getProperty parsed ''players'' of
      None \<Rightarrow> False
    | Some playersProp \<Rightarrow> \<not> (\<not> truthy playersProp \<or> \<not> isArray playersProp))
   \<longleftrightarrow> hasPlayersArray parsed"
proof (cases parsed)
  case (JObject props)
  show ?thesis
  proof (cases "map_of (rev props) ''players''")
    case None
    then show ?thesis by (simp add: JObject hasPlayersArray_def)
  next
    case (Some v)
    then show ?thesis by (cases v) (simp_all add: JObject hasPlayersArray_def)
  qed
qed (simp_all add: hasPlayersArray_def)

lemma assign_properties:
  "assign target source = target ++ map_of (rev (assignedProperties source))"
proof -
  have "foldl (\<lambda>t (key, v). t(key \<mapsto> v)) target props = target ++ map_of (rev props)"
    for props :: "(string \<times> json) list"
  proof (induction props arbitrary: target)
    case Nil
    then show ?case by simp
  next
    case (Cons kv props)
    obtain k v where kv: "kv = (k, v)" by (cases kv)
    have "foldl (\<lambda>t (key, v). t(key \<mapsto> v)) target (kv # props)
          = foldl (\<lambda>t (key, v). t(key \<mapsto> v)) (target(k \<mapsto> v)) props"
      by (simp only: kv foldl_Cons prod.case)
    also have "\<dots> = target(k \<mapsto> v) ++ map_of (rev props)"
      by (rule Cons.IH)
    also have "\<dots> = target ++ ([k \<mapsto> v] ++ map_of (rev props))"
      by (metis map_add_assoc map_add_upd map_add_empty)
    also have "\<dots> = target ++ map_of (rev (kv # props))"
      by (simp add: kv)
    finally show ?case .
  qed
  then show ?thesis by (simp add: assign_def)
qed

lemma doImport_rejects:
  assumes "trim text = [] \<or> parse (trim text) = None
      \<or> (\<exists>parsed. parse (trim text) = Some parsed \<and> \<not> hasPlayersArray parsed)"
  shows "doImport parse completes text st = (st, Some (EnterData, Error))
         \<or> doImport parse completes text st = (st, Some (InvalidData, Error))"
proof (cases "trim text = []")
  case True
  then show ?thesis by (simp add: doImport_def)
next
  case False
  show ?thesis
  proof (cases "parse (trim text)")
    case None
    then show ?thesis using False by (simp add: doImport_def)
  next
    case (Some parsed)
    then have "\<not> hasPlayersArray parsed" using assms False by auto
    then have inv: "\<not> (case getProperty parsed ''players'' of
      None \<Rightarrow> False
    | Some playersProp \<Rightarrow> \<not> (\<not> truthy playersProp \<or> \<not> isArray playersProp))"
      using validation_iff [of parsed] by blast
    show ?thesis
    proof (cases "getProperty parsed ''players''")
      case None
      then show ?thesis using False Some by (simp add: doImport_def)
    next
      case (Some playersProp)
      then have "\<not> truthy playersProp \<or> \<not> isArray playersProp" using inv by simp
      then show ?thesis using False \<open>parse (trim text) = Some parsed\<close> Some
        by (auto simp: doImport_def)
    qed
  qed
qed

lemma doImport_accepts:
  assumes "trim text \<noteq> []" and "parse (trim text) = Some parsed" and "hasPlayersArray parsed"
  shows "doImport parse completes text st
         = (st ++ map_of (rev (assignedProperties parsed)),
            if completes (st ++ map_of (rev (assignedProperties parsed)))
            then Some (Imported, Success) else Some (InvalidData, Error))"
proof -
  have "case getProperty parsed ''players'' of
      None \<Rightarrow> False
    | Some playersProp \<Rightarrow> \<not> (\<not> truthy playersProp \<or> \<not> isArray playersProp)"
    using assms(3) validation_iff [of parsed] by blast
  then obtain playersProp where "getProperty parsed ''players'' = Some playersProp"
    and "truthy playersProp" and "isArray playersProp"
    by (auto split: option.splits)
  then show ?thesis using assms(1,2) by (simp add: doImport_def assign_properties Let_def)
qed

lemma imports_evaluated:
  shows "trim playersOnlyText \<noteq> []"
    and "exampleParse (trim playersOnlyText) = Some (JObject [(''players'', JArray [])])"
    and "snd (doImport exampleParse exampleCompletes playersOnlyText sessionObject)
           = Some (Imported, Success)"
    and "fst (doImport exampleParse exampleCompletes playersOnlyText sessionObject) ''currentRound''
           = Some (JNumber 3)"
    and "fst (doImport exampleParse exampleCompletes playersOnlyText sessionObject) ''players''
           = Some (JArray [])"
    and "map_of [(''players'', JArray [])] ''currentRound'' = None"
    and "exampleParse (trim playersNumberText) = Some (JObject [(''players'', JNumber 5)])"
    and "exampleCompletes (sessionObject ++ map_of (rev (assignedProperties
           (JObject [(''players'', JArray [])]))))"
  by code_simp+

text \<open>
  The calls that follow the merge can throw on a payload that passed the validation: a
  player without a name is imported, \<^verbatim>\<open>renderPlayers\<close> throws, and the error message is
  shown over a session that has the imported players already.
\<close>

lemma nameless_player_imported_with_error:
  shows "trim namelessPlayerText \<noteq> []"
    and "exampleParse (trim namelessPlayerText)
           = Some (JObject [(''players'', JArray [JObject [(''id'', JString ''x'')]])])"
    and "hasPlayersArray (JObject [(''players'', JArray [JObject [(''id'', JString ''x'')]])])"
    and "snd (doImport exampleParse exampleCompletes namelessPlayerText sessionObject)
           = Some (InvalidData, Error)"
    and "fst (doImport exampleParse exampleCompletes namelessPlayerText sessionObject) ''players''
           = Some (JArray [JObject [(''id'', JString ''x'')]])"
    and "sessionObject ''players'' \<noteq> Some (JArray [JObject [(''id'', JString ''x'')]])"
proof -
  show "hasPlayersArray (JObject [(''players'', JArray [JObject [(''id'', JString ''x'')]])])"
    by (simp add: hasPlayersArray_def)
qed code_simp+

text \<open>
  C3, as stated, fails in its second half: the payload \<^verbatim>\<open>{"players": []}\<close> passes the
  validation and is imported, but the session afterwards is not the imported snapshot:
  it still has the \<^verbatim>\<open>currentRound\<close> it had, which the snapshot does not have.
\<close>

theorem import_keeps_properties_not_in_payload:
  "exampleParse (trim playersOnlyText) = Some (JObject [(''players'', JArray [])])
   \<and> hasPlayersArray (JObject [(''players'', JArray [])])
   \<and> snd (doImport exampleParse exampleCompletes playersOnlyText sessionObject)
       = Some (Imported, Success)
   \<and> fst (doImport exampleParse exampleCompletes playersOnlyText sessionObject)
       \<noteq> map_of [(''players'', JArray [])]"
proof -
  note ev = imports_evaluated
  have "hasPlayersArray (JObject [(''players'', JArray [])])"
    by (simp add: hasPlayersArray_def)
  moreover have "fst (doImport exampleParse exampleCompletes playersOnlyText sessionObject)
                 \<noteq> map_of [(''players'', JArray [])]"
  proof
    assume "fst (doImport exampleParse exampleCompletes playersOnlyText sessionObject)
            = map_of [(''players'', JArray [])]"
    then have "fst (doImport exampleParse exampleCompletes playersOnlyText sessionObject)
                 ''currentRound''
               = map_of [(''players'', JArray [])] ''currentRound''"
      by (rule arg_cong)
    then show False by (simp only: ev(4,6)) simp
  qed
  ultimately show ?thesis using ev(2,3) by blast
qed

text \<open>
  C3, amended. When the trimmed text is empty, or is not valid JSON, or parses to a value
  that has no \<^verbatim>\<open>players\<close> field that is an array, the import is rejected with an error
  message and the session is exactly what it was. When the text parses to an object with
  a \<^verbatim>\<open>players\<close> array, the session afterwards is the prior session overridden by the
  top-level properties of the payload: a property that the payload names (other than
  \<^verbatim>\<open>__proto__\<close>) has the payload's value, every other property keeps its prior value; and
  the success message is shown when the saving and rendering that follow run to their end.
\<close>

theorem import_merges:
  "(trim text = [] \<or> parse (trim text) = None
      \<or> (\<exists>parsed. parse (trim text) = Some parsed \<and> \<not> hasPlayersArray parsed)
     \<longrightarrow> fst (doImport parse completes text st) = st
         \<and> (snd (doImport parse completes text st) = Some (EnterData, Error)
              \<or> snd (doImport parse completes text st) = Some (InvalidData, Error)))
   \<and> (\<forall>parsed. trim text \<noteq> [] \<and> parse (trim text) = Some parsed \<and> hasPlayersArray parsed
     \<longrightarrow> fst (doImport parse completes text st) = st ++ map_of (rev (assignedProperties parsed))
         \<and> (completes (st ++ map_of (rev (assignedProperties parsed)))
              \<longrightarrow> snd (doImport parse completes text st) = Some (Imported, Success)))"
proof (intro conjI impI allI)
  assume rej: "trim text = [] \<or> parse (trim text) = None
      \<or> (\<exists>parsed. parse (trim text) = Some parsed \<and> \<not> hasPlayersArray parsed)"
  have "doImport parse completes text st = (st, Some (EnterData, Error))
        \<or> doImport parse completes text st = (st, Some (InvalidData, Error))"
    using rej by (rule doImport_rejects)
  then show "fst (doImport parse completes text st) = st"
    and "snd (doImport parse completes text st) = Some (EnterData, Error)
         \<or> snd (doImport parse completes text st) = Some (InvalidData, Error)"
    by auto
next
  fix parsed
  assume ok: "trim text \<noteq> [] \<and> parse (trim text) = Some parsed \<and> hasPlayersArray parsed"
  then have acc: "doImport parse completes text st
             = (st ++ map_of (rev (assignedProperties parsed)),
                if completes (st ++ map_of (rev (assignedProperties parsed)))
                then Some (Imported, Success) else Some (InvalidData, Error))"
    by (intro doImport_accepts) simp_all
  show "fst (doImport parse completes text st) = st ++ map_of (rev (assignedProperties parsed))"
    by (simp add: acc)
  assume "completes (st ++ map_of (rev (assignedProperties parsed)))"
  then show "snd (doImport parse completes text st) = Some (Imported, Success)"
    by (simp add: acc)
qed

theorem import_merges_witness:
  "trim playersOnlyText \<noteq> []
   \<and> exampleParse (trim playersOnlyText) = Some (JObject [(''players'', JArray [])])
   \<and> hasPlayersArray (JObject [(''players'', JArray [])])
   \<and> exampleCompletes (sessionObject ++ map_of (rev (assignedProperties
        (JObject [(''players'', JArray [])]))))
   \<and> fst (doImport exampleParse exampleCompletes playersOnlyText sessionObject)
       = sessionObject ++ map_of (rev (assignedProperties (JObject [(''players'', JArray [])])))
   \<and> snd (doImport exampleParse exampleCompletes playersOnlyText sessionObject)
       = Some (Imported, Success)
   \<and> fst (doImport exampleParse exampleCompletes playersOnlyText sessionObject) ''players''
       = Some (JArray [])
   \<and> fst (doImport exampleParse exampleCompletes playersOnlyText sessionObject) ''currentRound''
       = Some (JNumber 3)
   \<and> exampleParse (trim playersNumberText) = Some (JObject [(''players'', JNumber 5)])
   \<and> \<not> hasPlayersArray (JObject [(''players'', JNumber 5)])
   \<and> fst (doImport exampleParse exampleCompletes playersNumberText sessionObject) = sessionObject"
proof -
  note ev = imports_evaluated
  have ok: "hasPlayersArray (JObject [(''players'', JArray [])])"
    by (simp add: hasPlayersArray_def)
  have bad: "\<not> hasPlayersArray (JObject [(''players'', JNumber 5)])"
    by (simp add: hasPlayersArray_def)
  have "fst (doImport exampleParse exampleCompletes playersOnlyText sessionObject)
        = sessionObject ++ map_of (rev (assignedProperties (JObject [(''players'', JArray [])])))
        \<and> snd (doImport exampleParse exampleCompletes playersOnlyText sessionObject)
            = Some (Imported, Success)"
    using import_merges [of playersOnlyText exampleParse exampleCompletes sessionObject]
      ev(1,2,8) ok by blast
  moreover have "fst (doImport exampleParse exampleCompletes playersNumberText sessionObject)
                 = sessionObject"
    using import_merges [of playersNumberText exampleParse exampleCompletes sessionObject]
      ev(7) bad by blast
  ultimately show ?thesis using ev(1,2,4,5,7,8) ok bad by blast
qed

end
